theory Spec2Isabelle
  imports Complex_Main "HOL-Library.AList"
begin

section \<open>Python values and failures\<close>

text \<open>
  The exceptions of Python and numpy that the modelled code can raise. None of the
  modelled functions catches an exception, and neither do the drivers, so a raise ends
  the run: a fallible function returns \<open>error + 'a\<close> with \<open>Inl\<close> for the raise.
\<close>

datatype error = IndexError | KeyError | ValueError | OverflowError

text \<open>
  Indexing a Python list or a one-dimensional numpy array with an integer: an index
  \<open>i\<close> with \<open>0 \<le> i < n\<close> reads entry \<open>i\<close>, an index with \<open>-n \<le> i < 0\<close> reads entry
  \<open>n + i\<close>, every other index raises IndexError.
\<close>

definition norm_index :: "nat \<Rightarrow> int \<Rightarrow> nat option" where
  "norm_index n i =
     (if 0 \<le> i \<and> i < int n then Some (nat i)
      else if - int n \<le> i \<and> i < 0 then Some (nat (int n + i))
      else None)"

definition np_index :: "'a list \<Rightarrow> int \<Rightarrow> error + 'a" where
  "np_index xs i =
     (case norm_index (length xs) i of
        None \<Rightarrow> Inl IndexError
      | Some k \<Rightarrow> Inr (xs ! k))"

section \<open>Decision policy (khuong/khuong\_algorithms.py)\<close>

text \<open>
  Python floats are modelled as reals: rounding is not modelled, so \<open>0.025\<close> is the
  real number \<open>25/1000\<close> and \<open>np.e ** x\<close> is \<open>exp x\<close>. The counts \<open>N\<close>, the time steps
  and the height \<open>h\<close> are Python integers.

  \<open>mod_list\<close> is computed at import time by
  \<^verbatim>\<open>skewnorm.cdf(x=np.array(range(200))/2, a=8.582, loc=2.866, scale=3.727)\<close>.
  The function \<open>skewnorm.cdf\<close> belongs to scipy, not to the repository: it is the
  parameter \<open>cdf\<close> (arguments \<open>x\<close>, \<open>a\<close>, \<open>loc\<close>, \<open>scale\<close>) of every definition that uses
  the table.
\<close>

definition mod_list :: "(real \<Rightarrow> real \<Rightarrow> real \<Rightarrow> real \<Rightarrow> real) \<Rightarrow> real list" where
  "mod_list cdf = map (\<lambda>k. cdf (real k / 2) (8582 / 1000) (2866 / 1000) (3727 / 1000)) [0..<200]"

definition eta_p :: "int \<Rightarrow> real" where
  "eta_p N = (let n_p1 = 29 / 1000 in if N = 0 then n_p1 else n_p1 / real_of_int N)"

definition eta_d :: "int \<Rightarrow> real" where
  "eta_d N =
     (let n_d0 = 25 / 1000; b_d = 11 / 100
      in if N = 0 then n_d0 else n_d0 + b_d * real_of_int N)"

definition prob_pickup :: "int \<Rightarrow> real" where
  "prob_pickup N = 1 - exp (- eta_p N)"

definition prob_drop ::
  "(real \<Rightarrow> real \<Rightarrow> real \<Rightarrow> real \<Rightarrow> real) \<Rightarrow> int \<Rightarrow> int \<Rightarrow> int \<Rightarrow> real \<Rightarrow> int \<Rightarrow> error + real" where
  "prob_drop cdf N t_now t_latest decay_rate h =
     (if N = 0 then Inr (25 / 1000)
      else
        let tau = t_now - t_latest;
            prob = 1 - exp (- eta_d N * exp (- real_of_int tau * decay_rate))
        in if h > 0
           then (case np_index (mod_list cdf) h of
                   Inl e \<Rightarrow> Inl e
                 | Inr f \<Rightarrow> Inr (prob * f))
           else Inr prob)"

section \<open>Surface graph (code/classes.py)\<close>

text \<open>
  \<open>Surface\<close> holds two \<open>OrderedDict\<close>s and a number. An \<open>OrderedDict\<close> is an association
  list with distinct keys: \<open>map_of\<close> is the lookup (a missing key raises KeyError),
  \<open>AList.update\<close> is the assignment \<open>d[k] = v\<close> (in place for a present key, at the end
  for a new one) and \<open>AList.delete\<close> is \<open>del d[k]\<close>. The adjacency lists are Python
  lists, \<open>append\<close> adds at the end and \<open>list.remove\<close> deletes the first occurrence
  (\<open>remove1\<close>) or raises ValueError when there is none. \<open>num_edges\<close> is a Python number
  that \<open>__init__\<close> turns into a float by \<open>deg/2\<close>; it is a real here.
\<close>

record 'v Surface =
  graph :: "('v \<times> 'v list) list"
  degrees :: "('v \<times> int) list"
  num_edges :: real

text \<open>
  \<open>Surface.__init__\<close>: the loop over the keys of \<open>graph\<close>, with the dictionary
  \<open>degrees\<close> and the counter \<open>num_edges\<close> as accumulators. The seed is a \<open>dict\<close>, so its keys
  are distinct, and \<open>OrderedDict(graph)\<close> keeps its entries and their order.
\<close>

fun init_loop :: "('v \<times> 'v list) list \<Rightarrow> ('v \<times> int) list \<Rightarrow> real \<Rightarrow> ('v \<times> int) list \<times> real" where
  "init_loop [] degs ne = (degs, ne)"
| "init_loop ((v, adj) # rest) degs ne =
     (let deg = int (length adj)
      in init_loop rest (AList.update v deg degs) (ne + real_of_int deg / 2))"

definition Surface_init :: "('v \<times> 'v list) list \<Rightarrow> 'v Surface" where
  "Surface_init seed =
     (case init_loop seed [] 0 of
        (degs, ne) \<Rightarrow> \<lparr>graph = seed, degrees = degs, num_edges = ne\<rparr>)"

text \<open>
  \<open>Surface.add_edge\<close>: the five statements in the source's order. Each dictionary
  lookup of an absent key raises KeyError.
\<close>

definition add_edge :: "'v Surface \<Rightarrow> 'v \<times> 'v \<Rightarrow> error + 'v Surface" where
  "add_edge s pair =
     (case pair of (v1, v2) \<Rightarrow>
        (case map_of (graph s) v1 of
           None \<Rightarrow> Inl KeyError
         | Some a1 \<Rightarrow>
             let g1 = AList.update v1 (a1 @ [v2]) (graph s)
             in (case map_of g1 v2 of
                   None \<Rightarrow> Inl KeyError
                 | Some a2 \<Rightarrow>
                     let g2 = AList.update v2 (a2 @ [v1]) g1
                     in (case map_of (degrees s) v1 of
                           None \<Rightarrow> Inl KeyError
                         | Some d1 \<Rightarrow>
                             let dg1 = AList.update v1 (d1 + 1) (degrees s)
                             in (case map_of dg1 v2 of
                                   None \<Rightarrow> Inl KeyError
                                 | Some d2 \<Rightarrow>
                                     Inr \<lparr>graph = g2,
                                          degrees = AList.update v2 (d2 + 1) dg1,
                                          num_edges = num_edges s + 1\<rparr>)))))"

text \<open>
  \<open>Surface.remove_vertex\<close>. The body of the \<open>for\<close> loop, for one neighbour \<open>nbr\<close>:
  \<^verbatim>\<open>self.graph[nbr].remove(vertex); self.degrees[nbr] -= 1; self.num_edges -= 1\<close>.
\<close>

definition remove_vertex_body :: "'v \<Rightarrow> 'v \<Rightarrow> 'v Surface \<Rightarrow> error + 'v Surface" where
  "remove_vertex_body vertex nbr s =
     (case map_of (graph s) nbr of
        None \<Rightarrow> Inl KeyError
      | Some adj \<Rightarrow>
          if vertex \<notin> set adj then Inl ValueError
          else
            let g = AList.update nbr (remove1 vertex adj) (graph s)
            in (case map_of (degrees s) nbr of
                  None \<Rightarrow> Inl KeyError
                | Some d \<Rightarrow>
                    Inr \<lparr>graph = g,
                         degrees = AList.update nbr (d - 1) (degrees s),
                         num_edges = num_edges s - 1\<rparr>))"

text \<open>
  The loop \<^verbatim>\<open>for nbr in nbrs\<close> iterates over the list object \<open>self.graph[vertex]\<close>
  itself: Python's list iterator keeps an index \<open>i\<close> and stops when \<open>i\<close> reaches the
  current length. The body changes that very list exactly when \<open>nbr\<close> is \<open>vertex\<close> (then
  \<open>self.graph[nbr]\<close> is the list being iterated), so the loop carries the list along.
  Here a list is identified with its contents, as if no two keys held the same list
  object; the next section keeps the list objects apart from their contents.
\<close>

function remove_vertex_loop :: "'v \<Rightarrow> 'v list \<Rightarrow> nat \<Rightarrow> 'v Surface \<Rightarrow> error + 'v Surface" where
  "remove_vertex_loop vertex nbrs i s =
     (if i < length nbrs
      then (case remove_vertex_body vertex (nbrs ! i) s of
              Inl e \<Rightarrow> Inl e
            | Inr s' \<Rightarrow>
                remove_vertex_loop vertex
                  (if nbrs ! i = vertex then remove1 vertex nbrs else nbrs) (Suc i) s')
      else Inr s)"
  by pat_completeness auto
termination
proof (relation "measure (\<lambda>(vertex, nbrs, i, s). length nbrs - i)")
  show "wf (measure (\<lambda>(vertex, nbrs, i, s). length nbrs - i))" by simp
next
  fix vertex :: 'v and nbrs :: "'v list" and i :: nat and s x2 :: "'v Surface"
  assume "i < length nbrs"
  moreover have "length (remove1 vertex nbrs) \<le> length nbrs"
    by (simp add: length_remove1)
  ultimately show
    "((vertex, if nbrs ! i = vertex then remove1 vertex nbrs else nbrs, Suc i, x2),
      (vertex, nbrs, i, s))
     \<in> measure (\<lambda>(vertex, nbrs, i, s). length nbrs - i)"
    by auto
qed

definition remove_vertex :: "'v Surface \<Rightarrow> 'v \<Rightarrow> error + 'v Surface" where
  "remove_vertex s vertex =
     (case map_of (graph s) vertex of
        None \<Rightarrow> Inl KeyError
      | Some nbrs \<Rightarrow>
          (case remove_vertex_loop vertex nbrs 0 s of
             Inl e \<Rightarrow> Inl e
           | Inr s1 \<Rightarrow>
               (case map_of (graph s1) vertex of
                  None \<Rightarrow> Inl KeyError
                | Some _ \<Rightarrow>
                    (case map_of (degrees s1) vertex of
                       None \<Rightarrow> Inl KeyError
                     | Some _ \<Rightarrow>
                         Inr \<lparr>graph = AList.delete vertex (graph s1),
                              degrees = AList.delete vertex (degrees s1),
                              num_edges = num_edges s1\<rparr>))))"

text \<open>
  \<open>Surface.get_rw_stationary_distribution\<close>. \<open>np.fromiter(..., dtype=np.int32)\<close> converts
  each degree to a 32-bit integer and raises OverflowError for one that does not fit.
  The division \<open>p/(2*self.num_edges)\<close> is numpy's elementwise true division: a zero
  divisor raises nothing (numpy prints a RuntimeWarning), the entry becomes \<open>nan\<close> for a
  zero dividend and an infinity otherwise.
\<close>

datatype npfloat = Finite real | PosInf | NegInf | NaN

definition np_true_divide :: "int \<Rightarrow> real \<Rightarrow> npfloat" where
  "np_true_divide x y =
     (if y = 0 then (if x = 0 then NaN else if 0 < x then PosInf else NegInf)
      else Finite (real_of_int x / y))"

definition fits_int32 :: "int \<Rightarrow> bool" where
  "fits_int32 d = (- (2 ^ 31) \<le> d \<and> d < 2 ^ 31)"

definition get_rw_stationary_distribution :: "'v Surface \<Rightarrow> error + npfloat list" where
  "get_rw_stationary_distribution s =
     (let p = map snd (degrees s)
      in if list_all fits_int32 p
         then Inr (map (\<lambda>d. np_true_divide d (2 * num_edges s)) p)
         else Inl OverflowError)"

section \<open>Surface graph with its list objects (code/classes.py)\<close>

text \<open>
  The values of \<open>self.graph\<close> are Python list objects, and \<open>OrderedDict(graph)\<close> copies the
  seed dictionary but not its lists: \<open>self.graph[v]\<close> is the very list object that the
  seed holds for \<open>v\<close>. Two keys of a seed may hold one and the same list object, and then
  an \<open>append\<close> or a \<open>remove\<close> through one key also changes the list of the other. The
  definitions of the previous section identify a list with its contents; they describe
  the class when no two keys hold the same list object.

  The definitions of this section keep the identity of the list objects. In a state
  \<open>Surface'\<close> the dictionary \<open>graph'\<close> maps a vertex to the address of its list object and
  \<open>heap\<close> maps an address to the contents of the object; \<open>degrees'\<close> and \<open>num_edges'\<close> are
  the other two fields. A seed is such a dictionary with a heap. The primed functions
  are the methods of the class, statement by statement as before, with every change of
  a list made in the heap.
\<close>

record 'v Surface' =
  graph' :: "('v \<times> nat) list"
  heap :: "nat \<Rightarrow> 'v list"
  degrees' :: "('v \<times> int) list"
  num_edges' :: real

fun init_loop' ::
  "('v \<times> nat) list \<Rightarrow> (nat \<Rightarrow> 'v list) \<Rightarrow> ('v \<times> int) list \<Rightarrow> real \<Rightarrow> ('v \<times> int) list \<times> real" where
  "init_loop' [] h degs ne = (degs, ne)"
| "init_loop' ((v, r) # rest) h degs ne =
     (let deg = int (length (h r))
      in init_loop' rest h (AList.update v deg degs) (ne + real_of_int deg / 2))"

definition Surface_init' :: "('v \<times> nat) list \<Rightarrow> (nat \<Rightarrow> 'v list) \<Rightarrow> 'v Surface'" where
  "Surface_init' seed h =
     (case init_loop' seed h [] 0 of
        (degs, ne) \<Rightarrow> \<lparr>graph' = seed, heap = h, degrees' = degs, num_edges' = ne\<rparr>)"

definition add_edge' :: "'v Surface' \<Rightarrow> 'v \<times> 'v \<Rightarrow> error + 'v Surface'" where
  "add_edge' s pair =
     (case pair of (v1, v2) \<Rightarrow>
        (case map_of (graph' s) v1 of
           None \<Rightarrow> Inl KeyError
         | Some r1 \<Rightarrow>
             let h1 = (heap s)(r1 := heap s r1 @ [v2])
             in (case map_of (graph' s) v2 of
                   None \<Rightarrow> Inl KeyError
                 | Some r2 \<Rightarrow>
                     let h2 = h1(r2 := h1 r2 @ [v1])
                     in (case map_of (degrees' s) v1 of
                           None \<Rightarrow> Inl KeyError
                         | Some d1 \<Rightarrow>
                             let dg1 = AList.update v1 (d1 + 1) (degrees' s)
                             in (case map_of dg1 v2 of
                                   None \<Rightarrow> Inl KeyError
                                 | Some d2 \<Rightarrow>
                                     Inr \<lparr>graph' = graph' s, heap = h2,
                                          degrees' = AList.update v2 (d2 + 1) dg1,
                                          num_edges' = num_edges' s + 1\<rparr>)))))"

definition remove_vertex_body' :: "'v \<Rightarrow> 'v \<Rightarrow> 'v Surface' \<Rightarrow> error + 'v Surface'" where
  "remove_vertex_body' vertex nbr s =
     (case map_of (graph' s) nbr of
        None \<Rightarrow> Inl KeyError
      | Some r \<Rightarrow>
          if vertex \<notin> set (heap s r) then Inl ValueError
          else
            let h = (heap s)(r := remove1 vertex (heap s r))
            in (case map_of (degrees' s) nbr of
                  None \<Rightarrow> Inl KeyError
                | Some d \<Rightarrow>
                    Inr \<lparr>graph' = graph' s, heap = h,
                         degrees' = AList.update nbr (d - 1) (degrees' s),
                         num_edges' = num_edges' s - 1\<rparr>))"

text \<open>
  The loop \<^verbatim>\<open>for nbr in nbrs\<close> iterates over the list object at the address \<open>r\<close> of
  \<open>self.graph[vertex]\<close>: the iterator keeps an index \<open>i\<close> and reads the object anew at
  every step, so it sees whatever the body has done to it.
\<close>

function remove_vertex_loop' :: "'v \<Rightarrow> nat \<Rightarrow> nat \<Rightarrow> 'v Surface' \<Rightarrow> error + 'v Surface'" where
  "remove_vertex_loop' vertex r i s =
     (if i < length (heap s r)
      then (case remove_vertex_body' vertex (heap s r ! i) s of
              Inl e \<Rightarrow> Inl e
            | Inr s' \<Rightarrow> remove_vertex_loop' vertex r (Suc i) s')
      else Inr s)"
  by pat_completeness auto
termination
proof (relation "measure (\<lambda>(vertex, r, i, s). length (heap s r) - i)")
  show "wf (measure (\<lambda>(vertex, r, i, s). length (heap s r) - i))" by simp
next
  fix vertex :: 'v and r i :: nat and s x2 :: "'v Surface'"
  assume "i < length (heap s r)"
    and "remove_vertex_body' vertex (heap s r ! i) s = Inr x2"
  then have "i < length (heap s r)" and "length (heap x2 r) \<le> length (heap s r)"
    by (auto simp: remove_vertex_body'_def Let_def length_remove1
             split: option.splits if_splits)
  then show "((vertex, r, Suc i, x2), (vertex, r, i, s))
     \<in> measure (\<lambda>(vertex, r, i, s). length (heap s r) - i)"
    by simp
qed

definition remove_vertex' :: "'v Surface' \<Rightarrow> 'v \<Rightarrow> error + 'v Surface'" where
  "remove_vertex' s vertex =
     (case map_of (graph' s) vertex of
        None \<Rightarrow> Inl KeyError
      | Some r \<Rightarrow>
          (case remove_vertex_loop' vertex r 0 s of
             Inl e \<Rightarrow> Inl e
           | Inr s1 \<Rightarrow>
               (case map_of (graph' s1) vertex of
                  None \<Rightarrow> Inl KeyError
                | Some _ \<Rightarrow>
                    (case map_of (degrees' s1) vertex of
                       None \<Rightarrow> Inl KeyError
                     | Some _ \<Rightarrow>
                         Inr \<lparr>graph' = AList.delete vertex (graph' s1), heap = heap s1,
                              degrees' = AList.delete vertex (degrees' s1),
                              num_edges' = num_edges' s1\<rparr>))))"

text \<open>
  What a state shows to a reader of the dictionaries: every vertex with the contents
  of its list, the degrees and the number of edges.
\<close>

definition adjacency :: "('v \<times> nat) list \<Rightarrow> (nat \<Rightarrow> 'v list) \<Rightarrow> ('v \<times> 'v list) list" where
  "adjacency refs h = map (\<lambda>(v, r). (v, h r)) refs"

definition view :: "'v Surface' \<Rightarrow> 'v Surface" where
  "view s = \<lparr>graph = adjacency (graph' s) (heap s), degrees = degrees' s,
             num_edges = num_edges' s\<rparr>"

section \<open>Graph invariants and call sequences\<close>

text \<open>
  The three invariants of the surface graph, as executable predicates: symmetry of
  the adjacency lists (every listed neighbour is a vertex and lists the vertex back),
  \<open>degrees[v] = len(graph[v])\<close> for every vertex, and
  \<open>num_edges = (sum of the degrees) / 2\<close>.

  An adjacency has no duplicated edge when its keys are distinct, no list names
  another vertex twice, and a list names its own vertex either not at all or exactly
  twice in a row, which is how \<open>add_edge((v, v))\<close> records a self-loop.
\<close>

definition symmetric_adj :: "('v \<times> 'v list) list \<Rightarrow> bool" where
  "symmetric_adj g =
     (\<forall>(v, adj) \<in> set g. \<forall>u \<in> set adj.
        (case map_of g u of None \<Rightarrow> False | Some adj' \<Rightarrow> v \<in> set adj'))"

fun self_paired :: "'v \<Rightarrow> 'v list \<Rightarrow> bool" where
  "self_paired v [] = True"
| "self_paired v (x # xs) =
     (if x = v then (case xs of [] \<Rightarrow> False | y # ys \<Rightarrow> y = v \<and> v \<notin> set ys)
      else self_paired v xs)"

definition simple_adj :: "('v \<times> 'v list) list \<Rightarrow> bool" where
  "simple_adj g =
     (distinct (map fst g)
      \<and> (\<forall>(v, adj) \<in> set g. distinct (filter (\<lambda>u. u \<noteq> v) adj) \<and> self_paired v adj))"

definition degrees_match :: "'v Surface \<Rightarrow> bool" where
  "degrees_match s =
     (\<forall>(v, adj) \<in> set (graph s). map_of (degrees s) v = Some (int (length adj)))"

definition total_degree :: "('v \<times> int) list \<Rightarrow> int" where
  "total_degree degs = sum_list (map snd degs)"

definition edges_match :: "'v Surface \<Rightarrow> bool" where
  "edges_match s = (num_edges s = real_of_int (total_degree (degrees s)) / 2)"

text \<open>
  A sequence of calls of \<open>add_edge\<close> and \<open>remove_vertex\<close> on a state with its list
  objects. \<open>run\<close> executes it and stops at the first exception. \<open>precondition\<close> is what
  the caller owes before each call: both endpoints of a new edge are vertices (they
  may be the same vertex) and the edge is not there yet; a removed vertex is a vertex.
  \<open>admissible\<close> says that every call of the sequence meets its precondition in the
  state it is made in. A seed is \<open>unshared\<close> when no two of its keys hold the same
  list object.
\<close>

datatype 'v mutation = AddEdge 'v 'v | RemoveVertex 'v

fun mutate :: "'v Surface' \<Rightarrow> 'v mutation \<Rightarrow> error + 'v Surface'" where
  "mutate s (AddEdge v1 v2) = add_edge' s (v1, v2)"
| "mutate s (RemoveVertex v) = remove_vertex' s v"

fun precondition :: "'v Surface' \<Rightarrow> 'v mutation \<Rightarrow> bool" where
  "precondition s (AddEdge v1 v2) =
     (case map_of (graph' s) v1 of
        None \<Rightarrow> False
      | Some r1 \<Rightarrow> map_of (graph' s) v2 \<noteq> None \<and> v2 \<notin> set (heap s r1))"
| "precondition s (RemoveVertex v) = (map_of (graph' s) v \<noteq> None)"

fun run :: "'v Surface' \<Rightarrow> 'v mutation list \<Rightarrow> error + 'v Surface'" where
  "run s [] = Inr s"
| "run s (m # ms) = (case mutate s m of Inl e \<Rightarrow> Inl e | Inr s' \<Rightarrow> run s' ms)"

fun admissible :: "'v Surface' \<Rightarrow> 'v mutation list \<Rightarrow> bool" where
  "admissible s [] = True"
| "admissible s (m # ms) =
     (precondition s m \<and> (case mutate s m of Inl e \<Rightarrow> True | Inr s' \<Rightarrow> admissible s' ms))"

definition unshared :: "('v \<times> nat) list \<Rightarrow> bool" where
  "unshared refs = distinct (map snd refs)"

text \<open>
  For the proofs: the degrees recomputed from the adjacency lists, the invariant that
  the mutations preserve, and the loop of \<open>remove_vertex\<close> as a fold over a fixed list.
\<close>

definition degrees_of :: "('v \<times> 'v list) list \<Rightarrow> ('v \<times> int) list" where
  "degrees_of g = map (\<lambda>(v, adj). (v, int (length adj))) g"

definition wf_surface :: "'v Surface \<Rightarrow> bool" where
  "wf_surface s =
     (distinct (map fst (graph s))
      \<and> (\<forall>v adj. map_of (graph s) v = Some adj \<longrightarrow>
            distinct (filter (\<lambda>u. u \<noteq> v) adj) \<and> self_paired v adj
            \<and> (\<forall>u \<in> set adj. \<exists>adj'. map_of (graph s) u = Some adj' \<and> v \<in> set adj'))
      \<and> degrees s = degrees_of (graph s)
      \<and> num_edges s = real_of_int (total_degree (degrees s)) / 2)"

primrec rv_fold :: "'v \<Rightarrow> 'v list \<Rightarrow> 'v Surface \<Rightarrow> error + 'v Surface" where
  "rv_fold vertex [] s = Inr s"
| "rv_fold vertex (u # us) s =
     (case remove_vertex_body vertex u s of
        Inl e \<Rightarrow> Inl e
      | Inr s' \<Rightarrow> rv_fold vertex us s')"

section \<open>World grid and agents (code/classes.py)\<close>

text \<open>
  A \<open>World\<close> holds the dimensions and two numpy tensors of shape
  \<open>(width, length, height)\<close>: \<open>grid\<close> with the material code of every voxel
  (\<open>-2\<close> agent, \<open>-1\<close> object, \<open>0\<close> empty, \<open>1\<close> soil, \<open>2\<close> built) and \<open>times\<close> with the
  step of the last drop. A tensor is a function on voxels, of which only the voxels
  inside the shape are ever read or written. The field \<open>length\<close> is named \<open>length'\<close>.
  The dimensions and \<open>soil_height\<close> are natural numbers; the tensors \<open>field\<close> and
  \<open>pheromones\<close> and the method \<open>diffuse\<close> are used by none of the modelled functions
  and are left out.

  \<open>World.__init__\<close> fills the grid with zeros, the times with \<open>-10^9\<close>, writes soil
  below \<open>soil_height\<close> and writes \<open>-1\<close> where an object of the grid's shape is \<open>1\<close>
  (an object is its shape and its entries).
\<close>

type_synonym voxel = "nat \<times> nat \<times> nat"
type_synonym coord = "int \<times> int \<times> int"

record World =
  width :: nat
  length' :: nat
  height :: nat
  soil_height :: nat
  grid :: "voxel \<Rightarrow> int"
  times :: "voxel \<Rightarrow> int"

definition in_shape :: "nat \<times> nat \<times> nat \<Rightarrow> voxel \<Rightarrow> bool" where
  "in_shape shape c =
     (case shape of (w, l, h) \<Rightarrow> case c of (x, y, z) \<Rightarrow> x < w \<and> y < l \<and> z < h)"

definition init_objects ::
  "nat \<times> nat \<times> nat \<Rightarrow> ((nat \<times> nat \<times> nat) \<times> (voxel \<Rightarrow> int)) list \<Rightarrow> (voxel \<Rightarrow> int) \<Rightarrow> voxel \<Rightarrow> int" where
  "init_objects shape objects g =
     fold (\<lambda>(obj_shape, obj) g.
             if obj_shape = shape
             then (\<lambda>c. if in_shape shape c \<and> obj c = 1 then - 1 else g c)
             else g)
       objects g"

definition World_init ::
  "nat \<Rightarrow> nat \<Rightarrow> nat \<Rightarrow> nat \<Rightarrow> ((nat \<times> nat \<times> nat) \<times> (voxel \<Rightarrow> int)) list \<Rightarrow> World" where
  "World_init w l h sh objects =
     \<lparr>width = w, length' = l, height = h, soil_height = sh,
      grid = init_objects (w, l, h) objects
               (\<lambda>(x, y, z). if in_shape (w, l, h) (x, y, z) \<and> z < sh then 1 else 0),
      times = (\<lambda>c. - (10 ^ 9))\<rparr>"

text \<open>
  \<open>world.grid[x, y, z]\<close> with integer coordinates: numpy normalises each component
  on its own axis as \<open>norm_index\<close> does, so a component \<open>c\<close> with \<open>-n \<le> c < 0\<close> addresses
  \<open>n + c\<close> and only a component outside \<open>[-n, n)\<close> raises IndexError.
\<close>

definition cell :: "World \<Rightarrow> coord \<Rightarrow> voxel option" where
  "cell w p =
     (case p of (x, y, z) \<Rightarrow>
        (case norm_index (width w) x of
           None \<Rightarrow> None
         | Some i \<Rightarrow>
             (case norm_index (length' w) y of
                None \<Rightarrow> None
              | Some j \<Rightarrow>
                  (case norm_index (height w) z of
                     None \<Rightarrow> None
                   | Some k \<Rightarrow> Some (i, j, k)))))"

text \<open>
  The coordinates that numpy accepts: every component lies in \<open>[-n, n)\<close> for the size
  \<open>n\<close> of its axis.
\<close>

definition in_range :: "World \<Rightarrow> coord \<Rightarrow> bool" where
  "in_range w p =
     (case p of (x, y, z) \<Rightarrow>
        - int (width w) \<le> x \<and> x < int (width w)
        \<and> - int (length' w) \<le> y \<and> y < int (length' w)
        \<and> - int (height w) \<le> z \<and> z < int (height w))"

definition grid_get :: "World \<Rightarrow> coord \<Rightarrow> error + int" where
  "grid_get w p = (case cell w p of None \<Rightarrow> Inl IndexError | Some c \<Rightarrow> Inr (grid w c))"

definition grid_set :: "World \<Rightarrow> coord \<Rightarrow> int \<Rightarrow> error + World" where
  "grid_set w p v =
     (case cell w p of
        None \<Rightarrow> Inl IndexError
      | Some c \<Rightarrow> Inr (w\<lparr>grid := (grid w)(c := v)\<rparr>))"

definition times_set :: "World \<Rightarrow> coord \<Rightarrow> int \<Rightarrow> error + World" where
  "times_set w p v =
     (case cell w p of
        None \<Rightarrow> Inl IndexError
      | Some c \<Rightarrow> Inr (w\<lparr>times := (times w)(c := v)\<rparr>))"

text \<open>
  An \<open>Agent\<close> has a position (three integers) and the flag \<open>has_pellet\<close>. Its methods
  mutate the world they are given: each returns the updated agent and world, or the
  raise.

  \<open>Agent.__init__\<close> reads \<open>no_obj = np.where(world.grid[:,:,world.soil_height]==0)\<close>,
  the pair of the index arrays of the empty cells of the layer (in row-major order),
  and draws \<open>x = np.random.choice(no_obj[0])\<close> and \<open>y = np.random.choice(no_obj[1])\<close>:
  two draws, each uniform on its array. A draw is the parameter \<open>r\<close> of
  \<open>random_choice\<close>, reduced modulo the length; on an empty array numpy raises
  ValueError. The layer itself is out of range when \<open>soil_height \<ge> height\<close>.
\<close>

record Agent =
  pos :: coord
  has_pellet :: int

definition random_choice :: "'a list \<Rightarrow> nat \<Rightarrow> error + 'a" where
  "random_choice xs r = (if xs = [] then Inl ValueError else Inr (xs ! (r mod length xs)))"

definition no_obj :: "World \<Rightarrow> (nat \<times> nat) list" where
  "no_obj w =
     filter (\<lambda>(x, y). grid w (x, y, soil_height w) = 0)
       (concat (map (\<lambda>x. map (\<lambda>y. (x, y)) [0..<length' w]) [0..<width w]))"

definition Agent_init :: "World \<Rightarrow> nat \<Rightarrow> nat \<Rightarrow> error + Agent \<times> World" where
  "Agent_init w r1 r2 =
     (if height w \<le> soil_height w then Inl IndexError
      else
        (case random_choice (map fst (no_obj w)) r1 of
           Inl e \<Rightarrow> Inl e
         | Inr x \<Rightarrow>
             (case random_choice (map snd (no_obj w)) r2 of
                Inl e \<Rightarrow> Inl e
              | Inr y \<Rightarrow>
                  let z = soil_height w;
                      p = (int x, int y, int z)
                  in (case grid_set w p (- 2) of
                        Inl e \<Rightarrow> Inl e
                      | Inr w' \<Rightarrow> Inr (\<lparr>pos = p, has_pellet = 0\<rparr>, w')))))"

definition place :: "Agent \<Rightarrow> World \<Rightarrow> error + World" where
  "place a w = grid_set w (pos a) (- 2)"

definition move :: "Agent \<Rightarrow> World \<Rightarrow> coord \<Rightarrow> error + Agent \<times> World" where
  "move a w new_pos =
     (let old_pos = pos a
      in (case grid_set w old_pos 0 of
            Inl e \<Rightarrow> Inl e
          | Inr w1 \<Rightarrow>
              let a1 = a\<lparr>pos := new_pos\<rparr>
              in (case place a1 w1 of Inl e \<Rightarrow> Inl e | Inr w2 \<Rightarrow> Inr (a1, w2))))"

definition pickup :: "Agent \<Rightarrow> World \<Rightarrow> error + Agent \<times> World" where
  "pickup a w =
     (case pos a of (x, y, z) \<Rightarrow>
        (case grid_set w (x, y, z - 1) 0 of
           Inl e \<Rightarrow> Inl e
         | Inr w1 \<Rightarrow>
             (case grid_set w1 (x, y, z) 0 of
                Inl e \<Rightarrow> Inl e
              | Inr w2 \<Rightarrow>
                  let a1 = a\<lparr>pos := (x, y, z - 1), has_pellet := 1\<rparr>
                  in (case place a1 w2 of Inl e \<Rightarrow> Inl e | Inr w3 \<Rightarrow> Inr (a1, w3)))))"

definition drop' :: "Agent \<Rightarrow> World \<Rightarrow> coord \<Rightarrow> error + Agent \<times> World" where
  "drop' a w new_pos =
     (case grid_set w (pos a) 2 of
        Inl e \<Rightarrow> Inl e
      | Inr w1 \<Rightarrow>
          let a1 = a\<lparr>pos := new_pos, has_pellet := 0\<rparr>
          in (case place a1 w1 of Inl e \<Rightarrow> Inl e | Inr w2 \<Rightarrow> Inr (a1, w2)))"

text \<open>
  The voxels of the grid, in the row-major order of numpy, and the number of them that
  hold a given code (\<open>np.sum(world.grid == c)\<close>). The material codes are \<open>-2\<close>, \<open>-1\<close>,
  \<open>0\<close>, \<open>1\<close> and \<open>2\<close>; \<open>valid_codes\<close> says that every voxel of the grid holds one of them.
\<close>

definition voxels :: "World \<Rightarrow> voxel list" where
  "voxels w =
     concat (map (\<lambda>x. concat (map (\<lambda>y. map (\<lambda>z. (x, y, z)) [0..<height w])
        [0..<length' w])) [0..<width w])"

definition count_code :: "World \<Rightarrow> int \<Rightarrow> nat" where
  "count_code w c = length (filter (\<lambda>v. grid w v = c) (voxels w))"

definition is_code :: "int \<Rightarrow> bool" where
  "is_code v = (v = - 2 \<or> v = - 1 \<or> v = 0 \<or> v = 1 \<or> v = 2)"

definition valid_codes :: "World \<Rightarrow> bool" where
  "valid_codes w = list_all (\<lambda>v. is_code (grid w v)) (voxels w)"

section \<open>Behaviour algorithms (khuong/khuong\_algorithms.py)\<close>

text \<open>
  The functions \<open>local_grid_data\<close>, \<open>valid_moves\<close>, \<open>compute_height\<close>,
  \<open>random_choices\<close> and \<open>random_move_direction\<close> are imported from
  \<^verbatim>\<open>code/functions.py\<close>, which is not part of the sources. The first three are
  parameters of the algorithms that call them: \<open>local_grid_data\<close> reads the world and
  may raise, \<open>valid_moves\<close> returns a list of moves whose second component is the
  direction vector (\<open>chosen_move[1]\<close>), \<open>compute_height\<close> returns an integer or
  raises. The random value \<open>x_rand\<close> is an argument in the source; the draw of
  \<open>random_choices(moves)[0]\<close> in the drop algorithm is the argument \<open>r\<close>.

  \<open>np.sum(v26==2)\<close> counts the built voxels in the neighbourhood.
\<close>

definition add3 :: "coord \<Rightarrow> coord \<Rightarrow> coord" where
  "add3 p d = (case p of (x, y, z) \<Rightarrow> case d of (dx, dy, dz) \<Rightarrow> (x + dx, y + dy, z + dz))"

definition count_built :: "int list \<Rightarrow> int" where
  "count_built v26 = int (length (filter (\<lambda>c. c = 2) v26))"

definition pickup_algorithm ::
  "(coord \<Rightarrow> World \<Rightarrow> error + int list) \<Rightarrow> coord \<Rightarrow> World \<Rightarrow> real \<Rightarrow> error + int option \<times> World" where
  "pickup_algorithm local_grid_data p w x_rand =
     (case p of (x, y, z) \<Rightarrow>
        (case grid_get w (x, y, z - 1) of
           Inl e \<Rightarrow> Inl e
         | Inr below \<Rightarrow>
             if below > 0
             then (case local_grid_data p w of
                     Inl e \<Rightarrow> Inl e
                   | Inr v26 \<Rightarrow>
                       let N = count_built v26;
                           prob = prob_pickup N
                       in if x_rand < prob
                          then (case grid_get w (x, y, z - 1) of
                                  Inl e \<Rightarrow> Inl e
                                | Inr material \<Rightarrow>
                                    (case grid_set w (x, y, z - 1) 0 of
                                       Inl e \<Rightarrow> Inl e
                                     | Inr w' \<Rightarrow> Inr (Some material, w')))
                          else Inr (None, w))
             else Inr (None, w)))"

text \<open>
  The drop algorithm takes the maximum of \<open>world.times\<close> over the slice
  \<open>[max(0,x-1):x+2, max(0,y-1):y+2, max(0,z-1):z+2]\<close>. A slice never raises: its
  bounds are clipped to the axis (a negative bound counts from the end); \<open>np.max\<close> of
  an empty slice raises ValueError.
\<close>

definition slice_range :: "nat \<Rightarrow> int \<Rightarrow> int \<Rightarrow> nat list" where
  "slice_range n lo hi =
     (let stop = (if hi < 0 then max 0 (int n + hi) else min hi (int n));
          start = (if lo < 0 then max 0 (int n + lo) else min lo (int n))
      in [nat start..<nat stop])"

definition times_max :: "World \<Rightarrow> coord \<Rightarrow> error + int" where
  "times_max w p =
     (case p of (x, y, z) \<Rightarrow>
        let x_low_bound = max 0 (x - 1);
            y_low_bound = max 0 (y - 1);
            z_low_bound = max 0 (z - 1);
            cells = concat (map (\<lambda>i. concat (map (\<lambda>j. map (\<lambda>k. (i, j, k))
                        (slice_range (height w) z_low_bound (z + 2)))
                        (slice_range (length' w) y_low_bound (y + 2))))
                        (slice_range (width w) x_low_bound (x + 2)))
        in if cells = [] then Inl ValueError
           else Inr (fold max (map (times w) (tl cells)) (times w (hd cells))))"

definition drop_algorithm ::
  "(real \<Rightarrow> real \<Rightarrow> real \<Rightarrow> real \<Rightarrow> real) \<Rightarrow>
   (coord \<Rightarrow> World \<Rightarrow> error + int list) \<Rightarrow> (int list \<Rightarrow> ('m \<times> coord) list) \<Rightarrow>
   (coord \<Rightarrow> World \<Rightarrow> error + int) \<Rightarrow>
   coord \<Rightarrow> World \<Rightarrow> int \<Rightarrow> real \<Rightarrow> real \<Rightarrow> nat \<Rightarrow> error + coord option \<times> World" where
  "drop_algorithm cdf local_grid_data valid_moves compute_height p w step decay_rate x_rand r =
     (case local_grid_data p w of
        Inl e \<Rightarrow> Inl e
      | Inr v26 \<Rightarrow>
          let moves = valid_moves v26
          in if length moves > 0
             then
               let N = count_built v26
               in (case times_max w p of
                     Inl e \<Rightarrow> Inl e
                   | Inr t_latest \<Rightarrow>
                       let t_now = step
                       in (case compute_height p w of
                             Inl e \<Rightarrow> Inl e
                           | Inr h \<Rightarrow>
                               (case prob_drop cdf N t_now t_latest decay_rate h of
                                  Inl e \<Rightarrow> Inl e
                                | Inr prob \<Rightarrow>
                                    if x_rand < prob
                                    then (case random_choice moves r of
                                            Inl e \<Rightarrow> Inl e
                                          | Inr chosen_move \<Rightarrow>
                                              let new_pos = add3 p (snd chosen_move)
                                              in (case grid_set w p 2 of
                                                    Inl e \<Rightarrow> Inl e
                                                  | Inr w1 \<Rightarrow>
                                                      (case times_set w1 p t_now of
                                                         Inl e \<Rightarrow> Inl e
                                                       | Inr w2 \<Rightarrow> Inr (Some new_pos, w2))))
                                    else Inr (None, w))))
             else Inr (None, w))"

text \<open>
  The two local walks draw a random move at every step. Their result is a finite
  distribution: a list of outcomes with their probabilities, built by \<open>dist_point\<close>
  (a sure outcome), \<open>dist_uniform\<close> (\<open>random_choices(moves)[0]\<close>, uniform on the list)
  and \<open>dist_bind\<close> (sequencing); \<open>mass d x\<close> is the probability of the outcome \<open>x\<close>.

  \<open>move_algorithm\<close> clears the start cell, runs its loop \<open>m\<close> times, and marks the
  final cell. Its loop has no \<open>break\<close>: an iteration without a valid move leaves the
  position as it is and the loop goes on. The loop of \<open>move_algorithm_new\<close> leaves at
  the first \<open>None\<close> direction.
\<close>

type_synonym 'a dist = "('a \<times> real) list"

definition dist_point :: "'a \<Rightarrow> 'a dist" where
  "dist_point x = [(x, 1)]"

definition dist_uniform :: "'a list \<Rightarrow> 'a dist" where
  "dist_uniform xs = map (\<lambda>x. (x, 1 / real (length xs))) xs"

definition dist_bind :: "'a dist \<Rightarrow> ('a \<Rightarrow> 'b dist) \<Rightarrow> 'b dist" where
  "dist_bind d f = concat (map (\<lambda>(x, p). map (\<lambda>(y, q). (y, p * q)) (f x)) d)"

definition mass :: "'a dist \<Rightarrow> 'a \<Rightarrow> real" where
  "mass d x = sum_list (map snd (filter (\<lambda>(y, p). y = x) d))"

fun move_loop ::
  "(coord \<Rightarrow> World \<Rightarrow> error + int list) \<Rightarrow> (int list \<Rightarrow> ('m \<times> coord) list) \<Rightarrow>
   World \<Rightarrow> nat \<Rightarrow> coord \<Rightarrow> (error + coord) dist" where
  "move_loop local_grid_data valid_moves w 0 p = dist_point (Inr p)"
| "move_loop local_grid_data valid_moves w (Suc j) p =
     (case local_grid_data p w of
        Inl e \<Rightarrow> dist_point (Inl e)
      | Inr local_data \<Rightarrow>
          let moves = valid_moves local_data
          in if length moves > 0
             then dist_bind (dist_uniform moves)
                    (\<lambda>chosen_move.
                       move_loop local_grid_data valid_moves w j (add3 p (snd chosen_move)))
             else move_loop local_grid_data valid_moves w j p)"

definition finish_move :: "World \<Rightarrow> error + coord \<Rightarrow> (error + coord \<times> World) dist" where
  "finish_move w r =
     (case r of
        Inl e \<Rightarrow> dist_point (Inl e)
      | Inr p \<Rightarrow>
          (case grid_set w p (- 2) of
             Inl e \<Rightarrow> dist_point (Inl e)
           | Inr w' \<Rightarrow> dist_point (Inr (p, w'))))"

definition move_algorithm ::
  "(coord \<Rightarrow> World \<Rightarrow> error + int list) \<Rightarrow> (int list \<Rightarrow> ('m \<times> coord) list) \<Rightarrow>
   coord \<Rightarrow> World \<Rightarrow> nat \<Rightarrow> (error + coord \<times> World) dist" where
  "move_algorithm local_grid_data valid_moves p w m =
     (case grid_set w p 0 of
        Inl e \<Rightarrow> dist_point (Inl e)
      | Inr w0 \<Rightarrow>
          dist_bind (move_loop local_grid_data valid_moves w0 m p) (finish_move w0))"

fun move_loop_new ::
  "(coord \<Rightarrow> World \<Rightarrow> error + int list) \<Rightarrow> (int list \<Rightarrow> coord option dist) \<Rightarrow>
   World \<Rightarrow> nat \<Rightarrow> coord \<Rightarrow> (error + coord) dist" where
  "move_loop_new local_grid_data random_move_direction w 0 p = dist_point (Inr p)"
| "move_loop_new local_grid_data random_move_direction w (Suc j) p =
     (case local_grid_data p w of
        Inl e \<Rightarrow> dist_point (Inl e)
      | Inr local_data \<Rightarrow>
          dist_bind (random_move_direction local_data)
            (\<lambda>dir. case dir of
                      Some d \<Rightarrow>
                        move_loop_new local_grid_data random_move_direction w j (add3 p d)
                    | None \<Rightarrow> dist_point (Inr p)))"

definition move_algorithm_new ::
  "(coord \<Rightarrow> World \<Rightarrow> error + int list) \<Rightarrow> (int list \<Rightarrow> coord option dist) \<Rightarrow>
   coord \<Rightarrow> World \<Rightarrow> nat \<Rightarrow> (error + coord \<times> World) dist" where
  "move_algorithm_new local_grid_data random_move_direction p w m =
     (case grid_set w p 0 of
        Inl e \<Rightarrow> dist_point (Inl e)
      | Inr w0 \<Rightarrow>
          dist_bind (move_loop_new local_grid_data random_move_direction w0 m p)
            (finish_move w0))"

text \<open>
  Modelled from the spec: \<open>random_move_direction\<close> is defined in
  \<^verbatim>\<open>code/functions.py\<close>, which is not part of the sources. By the specification it
  samples a direction vector uniformly among the valid moves of the neighbourhood,
  without materialising the candidate list, and yields \<open>None\<close> when there is no valid
  move.
\<close>

definition random_move_direction ::
  "(int list \<Rightarrow> ('m \<times> coord) list) \<Rightarrow> int list \<Rightarrow> coord option dist" where
  "random_move_direction valid_moves local_data =
     (if valid_moves local_data = [] then dist_point None
      else dist_uniform (map (\<lambda>mv. Some (snd mv)) (valid_moves local_data)))"

section \<open>Properties of the decision policy\<close>

lemma length_mod_list: "length (mod_list cdf) = 200"
  by (simp add: mod_list_def)

lemma nth_mod_list:
  "k < 200 \<Longrightarrow> mod_list cdf ! k = cdf (real k / 2) (8582 / 1000) (2866 / 1000) (3727 / 1000)"
  by (simp add: mod_list_def)

lemma np_index_mod_list_in:
  "0 \<le> h \<Longrightarrow> h < 200 \<Longrightarrow> np_index (mod_list cdf) h = Inr (mod_list cdf ! nat h)"
  by (simp add: np_index_def norm_index_def length_mod_list)

lemma np_index_mod_list_out:
  "200 \<le> h \<Longrightarrow> np_index (mod_list cdf) h = Inl IndexError"
  by (simp add: np_index_def norm_index_def length_mod_list)

text \<open>
  Claim C3, as amended. The drop probability is exactly \<open>0.025\<close> when \<open>N = 0\<close>, whatever
  the time, decay-rate and height arguments are. For \<open>N > 0\<close> it is
  \<open>1 - e^(-(0.025 + 0.11 N) e^(-(t_now - t_latest) decay_rate))\<close>: unmodulated at
  \<open>h = 0\<close>, and for \<open>0 < h < 200\<close> multiplied by the height-modulation factor, which is
  the skew-normal cumulative distribution (shape 8.582, location 2.866, scale 3.727)
  at \<open>h/2\<close>. For \<open>N > 0\<close> and \<open>h \<ge> 200\<close> the call returns no probability: the lookup in the
  table of 200 factors raises IndexError.
\<close>

theorem prob_drop_formula:
  "prob_drop cdf 0 t_now t_latest decay_rate h = Inr (25 / 1000)
   \<and> (0 < N \<longrightarrow>
        prob_drop cdf N t_now t_latest decay_rate 0 =
          Inr (1 - exp (- (25 / 1000 + 11 / 100 * real_of_int N)
                          * exp (- real_of_int (t_now - t_latest) * decay_rate))))
   \<and> (0 < N \<and> 0 < h \<and> h < 200 \<longrightarrow>
        prob_drop cdf N t_now t_latest decay_rate h =
          Inr ((1 - exp (- (25 / 1000 + 11 / 100 * real_of_int N)
                         * exp (- real_of_int (t_now - t_latest) * decay_rate)))
               * cdf (real_of_int h / 2) (8582 / 1000) (2866 / 1000) (3727 / 1000)))
   \<and> (0 < N \<and> 200 \<le> h \<longrightarrow>
        prob_drop cdf N t_now t_latest decay_rate h = Inl IndexError)"
proof -
  have e: "mod_list cdf ! nat h = cdf (real_of_int h / 2) (8582 / 1000) (2866 / 1000) (3727 / 1000)"
    if "0 < h" "h < 200"
    using that nth_mod_list [of "nat h" cdf] by simp
  show ?thesis
    unfolding prob_drop_def eta_d_def Let_def
    using e by (auto simp: np_index_mod_list_in np_index_mod_list_out)
qed

theorem prob_drop_formula_witness:
  "prob_drop (\<lambda>x a loc scale. x) 0 7 3 (1 / 1000) 5 = Inr (25 / 1000)
   \<and> prob_drop (\<lambda>x a loc scale. x) 2 7 3 (1 / 1000) 0 =
        Inr (1 - exp (- (25 / 1000 + 11 / 100 * real_of_int 2)
                        * exp (- real_of_int (7 - 3) * (1 / 1000))))
   \<and> prob_drop (\<lambda>x a loc scale. x) 2 7 3 (1 / 1000) 5 =
        Inr ((1 - exp (- (25 / 1000 + 11 / 100 * real_of_int 2)
                       * exp (- real_of_int (7 - 3) * (1 / 1000)))) * (5 / 2))
   \<and> prob_drop (\<lambda>x a loc scale. x) 2 7 3 (1 / 1000) 200 = Inl IndexError"
  using prob_drop_formula [of "\<lambda>x a loc scale. x" 7 3 "1 / 1000" 5 2]
    prob_drop_formula [of "\<lambda>x a loc scale. x" 7 3 "1 / 1000" 200 2]
  by simp

text \<open>
  Claim C3, as stated for every \<open>h > 0\<close>, does not hold: with \<open>N = 2\<close> and \<open>h = 200\<close> the
  call raises IndexError instead of returning a modulated probability.
\<close>

theorem prob_drop_height_counterexample:
  "prob_drop (\<lambda>x a loc scale. x) 2 7 3 (1 / 1000) 200 = Inl IndexError"
  by (simp add: prob_drop_def Let_def np_index_mod_list_out)

text \<open>
  Claim C10. The height-modulation table has exactly 200 entries, entry \<open>k\<close> being the
  skew-normal cumulative distribution (shape 8.582, location 2.866, scale 3.727) at
  \<open>k/2\<close>. In a call of the drop probability with \<open>N\<close> not zero, a height \<open>h\<close> with
  \<open>1 \<le> h \<le> 199\<close> multiplies the probability by entry \<open>h\<close>, and a height \<open>h \<ge> 200\<close> makes
  the lookup raise IndexError: the index is not clamped to the last entry.
\<close>

theorem mod_list_lookup:
  "length (mod_list cdf) = 200
   \<and> (\<forall>k < 200. mod_list cdf ! k = cdf (real k / 2) (8582 / 1000) (2866 / 1000) (3727 / 1000))
   \<and> (N \<noteq> 0 \<and> 1 \<le> h \<and> h \<le> 199 \<longrightarrow>
        prob_drop cdf N t_now t_latest decay_rate h =
          Inr ((1 - exp (- eta_d N * exp (- real_of_int (t_now - t_latest) * decay_rate)))
               * mod_list cdf ! nat h))
   \<and> (N \<noteq> 0 \<and> 200 \<le> h \<longrightarrow>
        prob_drop cdf N t_now t_latest decay_rate h = Inl IndexError)"
  unfolding prob_drop_def Let_def
  by (auto simp: length_mod_list nth_mod_list np_index_mod_list_in np_index_mod_list_out)

theorem mod_list_lookup_witness:
  "length (mod_list (\<lambda>x a loc scale. x)) = 200
   \<and> mod_list (\<lambda>x a loc scale. x) ! 3 = 3 / 2
   \<and> prob_drop (\<lambda>x a loc scale. x) 2 7 3 (1 / 1000) 3 =
        Inr ((1 - exp (- eta_d 2 * exp (- real_of_int (7 - 3) * (1 / 1000)))) * (3 / 2))
   \<and> prob_drop (\<lambda>x a loc scale. x) 2 7 3 (1 / 1000) 200 = Inl IndexError"
proof -
  note t = mod_list_lookup [of "\<lambda>x a loc scale. x" 2 3 7 3 "1 / 1000"]
  note u = mod_list_lookup [of "\<lambda>x a loc scale. x" 2 200 7 3 "1 / 1000"]
  have a: "mod_list (\<lambda>x a loc scale. x) ! 3 = 3 / 2" using t by simp
  show ?thesis using t u a by simp
qed

section \<open>Properties of the surface graph\<close>

lemma degrees_of_update:
  "degrees_of (AList.update k a g) = AList.update k (int (length a)) (degrees_of g)"
  by (induction g) (auto simp: degrees_of_def)

lemma degrees_of_delete:
  "degrees_of (AList.delete k g) = AList.delete k (degrees_of g)"
  by (induction g) (auto simp: degrees_of_def)

lemma map_of_degrees_of:
  "map_of (degrees_of g) v = map_option (\<lambda>adj. int (length adj)) (map_of g v)"
  by (induction g) (auto simp: degrees_of_def)

lemma map_fst_degrees_of: "map fst (degrees_of g) = map fst g"
  by (induction g) (auto simp: degrees_of_def)

lemma total_degree_update:
  "map_of degs k = Some d \<Longrightarrow>
   total_degree (AList.update k d' degs) = total_degree degs - d + d'"
  by (induction degs) (auto simp: total_degree_def)

lemma total_degree_delete:
  "distinct (map fst degs) \<Longrightarrow> map_of degs k = Some d \<Longrightarrow>
   total_degree (AList.delete k degs) = total_degree degs - d"
  by (induction degs) (auto simp: total_degree_def image_iff)

lemma map_fst_update_present:
  "map_of g k = Some a \<Longrightarrow> map fst (AList.update k a' g) = map fst g"
  by (induction g) (auto split: if_splits)

lemma init_loop_append:
  "distinct (map fst degs @ map fst rest) \<Longrightarrow>
   init_loop rest degs ne =
     (degs @ degrees_of rest, ne + real_of_int (total_degree (degrees_of rest)) / 2)"
proof (induction rest arbitrary: degs ne)
  case Nil
  then show ?case by (simp add: degrees_of_def total_degree_def)
next
  case (Cons p rest)
  obtain v adj where p: "p = (v, adj)" by (cases p)
  have notin: "v \<notin> fst ` set degs" using Cons.prems p by auto
  have upd: "AList.update v (int (length adj)) degs = degs @ [(v, int (length adj))]"
    using notin by (induction degs) auto
  have d: "distinct (map fst (degs @ [(v, int (length adj))]) @ map fst rest)"
    using Cons.prems p by auto
  show ?case
    using Cons.IH [OF d] p upd
    by (simp add: degrees_of_def total_degree_def add_divide_distrib)
qed

lemma Surface_init_eq:
  "distinct (map fst seed) \<Longrightarrow>
   Surface_init seed =
     \<lparr>graph = seed, degrees = degrees_of seed,
      num_edges = real_of_int (total_degree (degrees_of seed)) / 2\<rparr>"
  using init_loop_append [of "[]" seed 0] by (simp add: Surface_init_def)

subsection \<open>Adjacency lists with a self-loop\<close>

lemma sp_notin: "v \<notin> set adj \<Longrightarrow> self_paired v adj"
  by (induction adj) auto

lemma sp_decomp:
  "self_paired v adj \<Longrightarrow> v \<in> set adj \<Longrightarrow>
   \<exists>pre post. adj = pre @ v # v # post \<and> v \<notin> set pre \<and> v \<notin> set post"
proof (induction adj)
  case Nil
  then show ?case by simp
next
  case (Cons x xs)
  show ?case
  proof (cases "x = v")
    case True
    then obtain ys where "xs = v # ys" "v \<notin> set ys"
      using Cons.prems(1) by (cases xs) auto
    then have "x # xs = [] @ v # v # ys \<and> v \<notin> set [] \<and> v \<notin> set ys" using True by simp
    then show ?thesis by blast
  next
    case False
    then have "self_paired v xs" "v \<in> set xs" using Cons.prems by auto
    from Cons.IH [OF this] obtain pre post where
      "xs = pre @ v # v # post" "v \<notin> set pre" "v \<notin> set post" by blast
    then have "x # xs = (x # pre) @ v # v # post \<and> v \<notin> set (x # pre) \<and> v \<notin> set post"
      using False by simp
    then show ?thesis by blast
  qed
qed

lemma sp_append_other: "self_paired v adj \<Longrightarrow> u \<noteq> v \<Longrightarrow> self_paired v (adj @ [u])"
  by (induction adj) (auto split: list.splits)

lemma sp_append_self: "v \<notin> set adj \<Longrightarrow> self_paired v (adj @ [v, v])"
  by (induction adj) auto

lemma sp_remove1: "self_paired v adj \<Longrightarrow> u \<noteq> v \<Longrightarrow> self_paired v (remove1 u adj)"
  by (induction adj) (auto split: list.splits dest: notin_set_remove1)

lemma df_remove1: "distinct (filter P adj) \<Longrightarrow> distinct (filter P (remove1 u adj))"
  by (simp add: filter_remove1 distinct_remove1)

lemma once_removed:
  "distinct (filter (\<lambda>x. x \<noteq> u) adj) \<Longrightarrow> v \<noteq> u \<Longrightarrow> v \<notin> set (remove1 v adj)"
  by (induction adj) (auto split: if_splits)

lemma filter_neq_id: "v \<notin> set xs \<Longrightarrow> filter (\<lambda>u. u \<noteq> v) xs = xs"
  by (induction xs) auto

lemma distinct_remove1_self:
  assumes "distinct (filter (\<lambda>u. u \<noteq> v) adj)" and "self_paired v adj"
  shows "distinct (remove1 v adj)"
proof (cases "v \<in> set adj")
  case False
  then have "filter (\<lambda>u. u \<noteq> v) adj = adj" by (rule filter_neq_id)
  then show ?thesis using assms(1) False by (simp add: remove1_idem)
next
  case True
  from sp_decomp [OF assms(2) True] obtain pre post where
    a: "adj = pre @ v # v # post" and p: "v \<notin> set pre" "v \<notin> set post" by blast
  have f: "filter (\<lambda>u. u \<noteq> v) adj = pre @ post"
    using p by (simp add: a filter_neq_id)
  have r: "remove1 v adj = pre @ v # post" using p by (simp add: a remove1_append)
  show ?thesis using assms(1) p unfolding f r by auto
qed

subsection \<open>The loop of the removal as a fold\<close>

lemma rv_loop_fold:
  "vertex \<notin> set (drop i nbrs) \<Longrightarrow>
   remove_vertex_loop vertex nbrs i s = rv_fold vertex (drop i nbrs) s"
proof (induction vertex nbrs i s rule: remove_vertex_loop.induct)
  case (1 vertex nbrs i s)
  show ?case
  proof (cases "i < length nbrs")
    case False
    then show ?thesis by (simp add: remove_vertex_loop.simps [of vertex nbrs i s])
  next
    case True
    have dr: "drop i nbrs = nbrs ! i # drop (Suc i) nbrs"
      using True by (simp add: Cons_nth_drop_Suc)
    have neq: "nbrs ! i \<noteq> vertex" and rest: "vertex \<notin> set (drop (Suc i) nbrs)"
      using "1.prems" unfolding dr by auto
    show ?thesis
    proof (cases "remove_vertex_body vertex (nbrs ! i) s")
      case (Inl e)
      then show ?thesis
        using True by (simp add: remove_vertex_loop.simps [of vertex nbrs i s] dr)
    next
      case (Inr s')
      have "remove_vertex_loop vertex nbrs (Suc i) s' = rv_fold vertex (drop (Suc i) nbrs) s'"
        using "1.IH" [OF True Inr] neq rest by simp
      then show ?thesis
        using True Inr neq by (simp add: remove_vertex_loop.simps [of vertex nbrs i s] dr)
    qed
  qed
qed

lemma rv_loop_paired:
  assumes "v \<notin> set pre" and "v \<notin> set post"
  shows "i \<le> length pre \<Longrightarrow>
     remove_vertex_loop v (pre @ v # v # post) i s = rv_fold v (drop i pre @ v # post) s"
proof (induction "length pre - i" arbitrary: i s)
  case 0
  then have i: "i = length pre" by simp
  have len: "i < length (pre @ v # v # post)" by (simp add: i)
  have nth: "(pre @ v # v # post) ! i = v" by (simp add: i)
  have rem: "remove1 v (pre @ v # v # post) = pre @ v # post"
    using assms(1) by (simp add: remove1_append)
  show ?case
  proof (cases "remove_vertex_body v v s")
    case (Inl e)
    then show ?thesis
      using len nth by (simp add: remove_vertex_loop.simps [of v "pre @ v # v # post" i s] i)
  next
    case (Inr s')
    have "remove_vertex_loop v (pre @ v # post) (Suc i) s'
        = rv_fold v (drop (Suc i) (pre @ v # post)) s'"
      by (rule rv_loop_fold) (simp add: i assms(2))
    then have "remove_vertex_loop v (pre @ v # post) (Suc i) s' = rv_fold v post s'"
      by (simp add: i)
    then show ?thesis
      using len nth Inr rem
      by (simp add: remove_vertex_loop.simps [of v "pre @ v # v # post" i s] i)
  qed
next
  case (Suc n)
  then have lt: "i < length pre" by simp
  have len: "i < length (pre @ v # v # post)" using lt by simp
  have nth: "(pre @ v # v # post) ! i = pre ! i" using lt by (simp add: nth_append)
  have neq: "pre ! i \<noteq> v" using lt assms(1) by (metis nth_mem)
  have dr: "drop i pre = pre ! i # drop (Suc i) pre"
    using lt by (simp add: Cons_nth_drop_Suc)
  show ?case
  proof (cases "remove_vertex_body v (pre ! i) s")
    case (Inl e)
    then show ?thesis
      using len nth by (simp add: remove_vertex_loop.simps [of v "pre @ v # v # post" i s] dr)
  next
    case (Inr s')
    have "remove_vertex_loop v (pre @ v # v # post) (Suc i) s'
        = rv_fold v (drop (Suc i) pre @ v # post) s'"
      using Suc.hyps(1) [of "Suc i" s'] Suc.hyps(2) lt by simp
    then show ?thesis
      using len nth Inr neq
      by (simp add: remove_vertex_loop.simps [of v "pre @ v # v # post" i s] dr)
  qed
qed

lemma rv_loop_remove1:
  assumes "self_paired v nbrs"
  shows "remove_vertex_loop v nbrs 0 s = rv_fold v (remove1 v nbrs) s"
proof (cases "v \<in> set nbrs")
  case False
  have r: "remove1 v nbrs = nbrs" using False by (rule remove1_idem)
  have "remove_vertex_loop v nbrs 0 s = rv_fold v (drop 0 nbrs) s"
    using False by (intro rv_loop_fold) simp
  then show ?thesis unfolding r by (simp only: drop_0)
next
  case True
  from sp_decomp [OF assms True] obtain pre post where
    a: "nbrs = pre @ v # v # post" and p: "v \<notin> set pre" "v \<notin> set post" by blast
  have r: "remove1 v (pre @ v # v # post) = pre @ v # post"
    using p by (simp add: remove1_append)
  have "remove_vertex_loop v (pre @ v # v # post) 0 s = rv_fold v (drop 0 pre @ v # post) s"
    by (rule rv_loop_paired [OF p]) simp
  then show ?thesis unfolding a r by (simp only: drop_0)
qed

subsection \<open>The invariant and its preservation\<close>

lemma seed_wf:
  assumes "simple_adj seed" and "symmetric_adj seed"
  shows "wf_surface (Surface_init seed)"
proof -
  have d: "distinct (map fst seed)" using assms(1) by (simp add: simple_adj_def)
  have a: "\<And>v adj. map_of seed v = Some adj \<Longrightarrow>
      distinct (filter (\<lambda>u. u \<noteq> v) adj) \<and> self_paired v adj"
    using assms(1) d by (auto simp: simple_adj_def dest!: map_of_SomeD)
  have b: "\<And>v adj u. map_of seed v = Some adj \<Longrightarrow> u \<in> set adj \<Longrightarrow>
             \<exists>adj'. map_of seed u = Some adj' \<and> v \<in> set adj'"
  proof -
    fix v adj u assume m: "map_of seed v = Some adj" and u: "u \<in> set adj"
    have "(v, adj) \<in> set seed" using m by (rule map_of_SomeD)
    then have "case map_of seed u of None \<Rightarrow> False | Some adj' \<Rightarrow> v \<in> set adj'"
      using assms(2) u unfolding symmetric_adj_def by blast
    then show "\<exists>adj'. map_of seed u = Some adj' \<and> v \<in> set adj'"
      by (cases "map_of seed u") auto
  qed
  have g: "graph (Surface_init seed) = seed"
    and dg: "degrees (Surface_init seed) = degrees_of seed"
    and ne: "num_edges (Surface_init seed) = real_of_int (total_degree (degrees_of seed)) / 2"
    by (simp_all add: Surface_init_eq [OF d])
  show ?thesis
    unfolding wf_surface_def g dg ne
    using d a b by blast
qed

lemma wf_surfaceD:
  assumes "wf_surface s"
  shows "distinct (map fst (graph s))"
    and "\<And>v adj. map_of (graph s) v = Some adj \<Longrightarrow> distinct (filter (\<lambda>u. u \<noteq> v) adj)"
    and "\<And>v adj. map_of (graph s) v = Some adj \<Longrightarrow> self_paired v adj"
    and "\<And>v adj u. map_of (graph s) v = Some adj \<Longrightarrow> u \<in> set adj \<Longrightarrow>
           \<exists>adj'. map_of (graph s) u = Some adj' \<and> v \<in> set adj'"
    and "degrees s = degrees_of (graph s)"
    and "num_edges s = real_of_int (total_degree (degrees s)) / 2"
proof -
  have w: "distinct (map fst (graph s))
      \<and> (\<forall>v adj. map_of (graph s) v = Some adj \<longrightarrow>
            distinct (filter (\<lambda>u. u \<noteq> v) adj) \<and> self_paired v adj
            \<and> (\<forall>u \<in> set adj. \<exists>adj'. map_of (graph s) u = Some adj' \<and> v \<in> set adj'))
      \<and> degrees s = degrees_of (graph s)
      \<and> num_edges s = real_of_int (total_degree (degrees s)) / 2"
    using assms unfolding wf_surface_def .
  note a = w [THEN conjunct1]
  note b = w [THEN conjunct2, THEN conjunct1]
  note c = w [THEN conjunct2, THEN conjunct2, THEN conjunct1]
  note d = w [THEN conjunct2, THEN conjunct2, THEN conjunct2]
  show "distinct (map fst (graph s))" by (rule a)
  show "\<And>v adj. map_of (graph s) v = Some adj \<Longrightarrow> distinct (filter (\<lambda>u. u \<noteq> v) adj)"
    using b by blast
  show "\<And>v adj. map_of (graph s) v = Some adj \<Longrightarrow> self_paired v adj" using b by blast
  show "\<And>v adj u. map_of (graph s) v = Some adj \<Longrightarrow> u \<in> set adj \<Longrightarrow>
           \<exists>adj'. map_of (graph s) u = Some adj' \<and> v \<in> set adj'" using b by blast
  show "degrees s = degrees_of (graph s)" by (rule c)
  show "num_edges s = real_of_int (total_degree (degrees s)) / 2" by (rule d)
qed

lemma wf_surfaceI:
  assumes "distinct (map fst (graph s))"
    and "\<And>v adj. map_of (graph s) v = Some adj \<Longrightarrow> distinct (filter (\<lambda>u. u \<noteq> v) adj)"
    and "\<And>v adj. map_of (graph s) v = Some adj \<Longrightarrow> self_paired v adj"
    and "\<And>v adj u. map_of (graph s) v = Some adj \<Longrightarrow> u \<in> set adj \<Longrightarrow>
           \<exists>adj'. map_of (graph s) u = Some adj' \<and> v \<in> set adj'"
    and "degrees s = degrees_of (graph s)"
    and "num_edges s = real_of_int (total_degree (degrees s)) / 2"
  shows "wf_surface s"
  unfolding wf_surface_def using assms by blast

lemma wf_consistent:
  assumes "wf_surface s"
  shows "symmetric_adj (graph s) \<and> degrees_match s \<and> edges_match s"
proof -
  note w = wf_surfaceD [OF assms]
  have sym: "symmetric_adj (graph s)"
    unfolding symmetric_adj_def
  proof (intro ballI, clarify)
    fix v adj u assume "(v, adj) \<in> set (graph s)" and u: "u \<in> set adj"
    then have "map_of (graph s) v = Some adj" using w(1) by simp
    from w(4) [OF this u] obtain adj' where "map_of (graph s) u = Some adj'" "v \<in> set adj'"
      by blast
    then show "case map_of (graph s) u of None \<Rightarrow> False | Some adj' \<Rightarrow> v \<in> set adj'"
      by simp
  qed
  have deg: "degrees_match s"
    unfolding degrees_match_def
  proof (intro ballI, clarify)
    fix v adj assume "(v, adj) \<in> set (graph s)"
    then have "map_of (graph s) v = Some adj" using w(1) by simp
    then show "map_of (degrees s) v = Some (int (length adj))"
      by (simp add: w(5) map_of_degrees_of)
  qed
  have "edges_match s" using w(6) by (simp add: edges_match_def)
  with sym deg show ?thesis by simp
qed

lemma remove_vertex_body_ok:
  assumes "map_of (graph s) u = Some adj" and "vertex \<in> set adj"
    and "degrees s = degrees_of (graph s)"
  shows "remove_vertex_body vertex u s =
     Inr \<lparr>graph = AList.update u (remove1 vertex adj) (graph s),
          degrees = degrees_of (AList.update u (remove1 vertex adj) (graph s)),
          num_edges = num_edges s - 1\<rparr>"
proof -
  have "0 < length adj" using assms(2) by (cases adj) auto
  moreover have "length (remove1 vertex adj) = length adj - 1"
    using assms(2) by (simp add: length_remove1)
  ultimately have l: "int (length (remove1 vertex adj)) = int (length adj) - 1"
    by linarith
  have d: "map_of (degrees s) u = Some (int (length adj))"
    by (simp add: assms(3) map_of_degrees_of assms(1))
  have e: "degrees_of (AList.update u (remove1 vertex adj) (graph s)) =
      AList.update u (int (length adj) - 1) (degrees s)"
    by (simp only: degrees_of_update l assms(3))
  show ?thesis
    unfolding e
    using assms(1,2) d by (simp add: remove_vertex_body_def Let_def)
qed

lemma rv_fold_ok:
  assumes "distinct us"
    and "\<forall>u \<in> set us. \<exists>adj. map_of (graph s) u = Some adj \<and> vertex \<in> set adj"
    and "degrees s = degrees_of (graph s)"
  shows "\<exists>s1. rv_fold vertex us s = Inr s1
      \<and> map fst (graph s1) = map fst (graph s)
      \<and> (\<forall>u. map_of (graph s1) u =
             (if u \<in> set us then map_option (remove1 vertex) (map_of (graph s) u)
              else map_of (graph s) u))
      \<and> degrees s1 = degrees_of (graph s1)
      \<and> num_edges s1 = num_edges s - real (length us)
      \<and> total_degree (degrees s1) = total_degree (degrees s) - int (length us)"
  using assms
proof (induction us arbitrary: s)
  case Nil
  then show ?case by simp
next
  case (Cons u us)
  from Cons.prems(2) obtain adj where m: "map_of (graph s) u = Some adj"
    and v: "vertex \<in> set adj" by auto
  define s0 where "s0 = \<lparr>graph = AList.update u (remove1 vertex adj) (graph s),
          degrees = degrees_of (AList.update u (remove1 vertex adj) (graph s)),
          num_edges = num_edges s - 1\<rparr>"
  have body: "remove_vertex_body vertex u s = Inr s0"
    unfolding s0_def by (rule remove_vertex_body_ok [OF m v Cons.prems(3)])
  have g0: "graph s0 = AList.update u (remove1 vertex adj) (graph s)"
    and dg0: "degrees s0 = degrees_of (graph s0)"
    and ne0: "num_edges s0 = num_edges s - 1"
    by (simp_all add: s0_def)
  have mg0: "map_of (graph s0) = (map_of (graph s))(u \<mapsto> remove1 vertex adj)"
    by (simp add: g0 update_conv')
  have keys0: "map fst (graph s0) = map fst (graph s)"
    unfolding g0 by (rule map_fst_update_present [OF m])
  have d: "map_of (degrees s) u = Some (int (length adj))"
    by (simp add: Cons.prems(3) map_of_degrees_of m)
  have "0 < length adj" using v by (cases adj) auto
  moreover have "length (remove1 vertex adj) = length adj - 1"
    using v by (simp add: length_remove1)
  ultimately have l: "int (length (remove1 vertex adj)) = int (length adj) - 1"
    by linarith
  have "degrees s0 = AList.update u (int (length adj) - 1) (degrees s)"
    by (simp only: dg0 g0 degrees_of_update l Cons.prems(3))
  then have tot0: "total_degree (degrees s0) = total_degree (degrees s) - 1"
    by (simp add: total_degree_update [OF d])
  have un: "u \<notin> set us" and dus: "distinct us" using Cons.prems(1) by auto
  have pre0: "\<forall>w \<in> set us. \<exists>adj. map_of (graph s0) w = Some adj \<and> vertex \<in> set adj"
  proof
    fix w assume w: "w \<in> set us"
    then have "w \<noteq> u" using un by auto
    moreover from Cons.prems(2) w obtain b where "map_of (graph s) w = Some b" "vertex \<in> set b"
      by auto
    ultimately show "\<exists>adj. map_of (graph s0) w = Some adj \<and> vertex \<in> set adj"
      by (simp add: mg0)
  qed
  from Cons.IH [OF dus pre0 dg0] obtain s1 where
    r: "rv_fold vertex us s0 = Inr s1"
    and k: "map fst (graph s1) = map fst (graph s0)"
    and mm: "\<forall>w. map_of (graph s1) w =
             (if w \<in> set us then map_option (remove1 vertex) (map_of (graph s0) w)
              else map_of (graph s0) w)"
    and dd: "degrees s1 = degrees_of (graph s1)"
    and nn: "num_edges s1 = num_edges s0 - real (length us)"
    and tt: "total_degree (degrees s1) = total_degree (degrees s0) - int (length us)"
    by blast
  have 1: "rv_fold vertex (u # us) s = Inr s1" using body r by simp
  have 2: "map fst (graph s1) = map fst (graph s)" using k keys0 by simp
  have 3: "\<forall>w. map_of (graph s1) w =
             (if w \<in> set (u # us) then map_option (remove1 vertex) (map_of (graph s) w)
              else map_of (graph s) w)"
  proof
    fix w
    show "map_of (graph s1) w =
             (if w \<in> set (u # us) then map_option (remove1 vertex) (map_of (graph s) w)
              else map_of (graph s) w)"
      using mm [rule_format, of w] un m by (auto simp: mg0)
  qed
  have 4: "num_edges s1 = num_edges s - real (length (u # us))"
    using nn ne0 by simp
  have 5: "total_degree (degrees s1) = total_degree (degrees s) - int (length (u # us))"
    using tt tot0 by simp
  from 1 2 3 dd 4 5 show ?case by blast
qed

lemma add_edge_self_wf:
  assumes w: "wf_surface s" and m: "map_of (graph s) v = Some a" and n: "v \<notin> set a"
  shows "\<exists>s'. add_edge s (v, v) = Inr s' \<and> wf_surface s'"
proof -
  note W = wf_surfaceD [OF w]
  define g' where "g' = AList.update v ((a @ [v]) @ [v]) (AList.update v (a @ [v]) (graph s))"
  define s' where "s' = \<lparr>graph = g', degrees = degrees_of g', num_edges = num_edges s + 1\<rparr>"
  have d1: "map_of (degrees s) v = Some (int (length a))"
    by (simp add: W(5) map_of_degrees_of m)
  have dg: "degrees_of g' =
      AList.update v (int (length a) + 1 + 1)
        (AList.update v (int (length a) + 1) (degrees s))"
    by (simp add: g'_def degrees_of_update W(5) add.commute)
  have "add_edge s (v, v) =
      Inr \<lparr>graph = g',
           degrees = AList.update v (int (length a) + 1 + 1)
             (AList.update v (int (length a) + 1) (degrees s)),
           num_edges = num_edges s + 1\<rparr>"
    using m d1 by (simp add: add_edge_def Let_def update_conv' g'_def)
  then have run: "add_edge s (v, v) = Inr s'"
    by (simp only: s'_def dg)
  have mg': "map_of g' = (map_of (graph s))(v \<mapsto> a @ [v, v])"
    by (simp add: g'_def update_conv')
  have G: "graph s' = g'" "degrees s' = degrees_of g'" "num_edges s' = num_edges s + 1"
    by (simp_all add: s'_def)
  have "wf_surface s'"
  proof (rule wf_surfaceI; (unfold G)?)
    show "distinct (map fst g')"
      unfolding g'_def by (intro distinct_update W(1))
  next
    fix x adj assume h: "map_of g' x = Some adj"
    show "distinct (filter (\<lambda>u. u \<noteq> x) adj)"
    proof (cases "x = v")
      case True
      then have "adj = a @ [v, v]" using h by (simp add: mg')
      then show ?thesis using W(2) [OF m] True by simp
    next
      case False
      then have "map_of (graph s) x = Some adj" using h by (simp add: mg')
      then show ?thesis by (rule W(2))
    qed
    show "self_paired x adj"
    proof (cases "x = v")
      case True
      then have "adj = a @ [v, v]" using h by (simp add: mg')
      then show ?thesis using sp_append_self [OF n] True by simp
    next
      case False
      then have "map_of (graph s) x = Some adj" using h by (simp add: mg')
      then show ?thesis by (rule W(3))
    qed
  next
    fix x adj u assume h: "map_of g' x = Some adj" and u: "u \<in> set adj"
    have old: "\<exists>adj'. map_of g' u = Some adj' \<and> y \<in> set adj'"
      if "map_of (graph s) u = Some b" "y \<in> set b" for u b y
      using that m by (auto simp: mg')
    show "\<exists>adj'. map_of g' u = Some adj' \<and> x \<in> set adj'"
    proof (cases "x = v")
      case True
      then have adj: "adj = a @ [v, v]" using h by (simp add: mg')
      show ?thesis
      proof (cases "u = v")
        case True
        then show ?thesis using \<open>x = v\<close> by (simp add: mg')
      next
        case False
        then have "u \<in> set a" using u adj by simp
        from W(4) [OF m this] obtain b where "map_of (graph s) u = Some b" "v \<in> set b"
          by blast
        from old [OF this] True show ?thesis by simp
      qed
    next
      case False
      then have mx: "map_of (graph s) x = Some adj" using h by (simp add: mg')
      from W(4) [OF mx u] obtain b where "map_of (graph s) u = Some b" "x \<in> set b"
        by blast
      from old [OF this] show ?thesis .
    qed
  next
    show "degrees_of g' = degrees_of g'" by simp
  next
    have d1': "map_of (AList.update v (int (length a) + 1) (degrees s)) v
        = Some (int (length a) + 1)"
      by (simp add: update_conv')
    have tot: "total_degree (degrees_of g') = total_degree (degrees s) + 2"
      unfolding dg
      by (simp add: total_degree_update [OF d1'] total_degree_update [OF d1])
    show "num_edges s + 1 = real_of_int (total_degree (degrees_of g')) / 2"
      by (simp add: tot W(6))
  qed
  with run show ?thesis by blast
qed

lemma add_edge_other_wf:
  assumes w: "wf_surface s" and m1: "map_of (graph s) v1 = Some a1"
    and m2: "map_of (graph s) v2 = Some a2" and ne: "v1 \<noteq> v2" and n12: "v2 \<notin> set a1"
  shows "\<exists>s'. add_edge s (v1, v2) = Inr s' \<and> wf_surface s'"
proof -
  note W = wf_surfaceD [OF w]
  have n21: "v1 \<notin> set a2"
  proof
    assume "v1 \<in> set a2"
    from W(4) [OF m2 this] m1 n12 show False by auto
  qed
  define g' where "g' = AList.update v2 (a2 @ [v1]) (AList.update v1 (a1 @ [v2]) (graph s))"
  define s' where "s' = \<lparr>graph = g', degrees = degrees_of g', num_edges = num_edges s + 1\<rparr>"
  have dg: "degrees_of g' =
      AList.update v2 (int (length a2) + 1)
        (AList.update v1 (int (length a1) + 1) (degrees s))"
    by (simp add: g'_def degrees_of_update W(5) add.commute)
  have d1: "map_of (degrees s) v1 = Some (int (length a1))"
    by (simp add: W(5) map_of_degrees_of m1)
  have d2: "map_of (degrees s) v2 = Some (int (length a2))"
    by (simp add: W(5) map_of_degrees_of m2)
  have "add_edge s (v1, v2) =
      Inr \<lparr>graph = g',
           degrees = AList.update v2 (int (length a2) + 1)
             (AList.update v1 (int (length a1) + 1) (degrees s)),
           num_edges = num_edges s + 1\<rparr>"
    using m1 m2 ne d1 d2
    by (simp add: add_edge_def Let_def update_conv' g'_def)
  then have run: "add_edge s (v1, v2) = Inr s'"
    by (simp only: s'_def dg)
  have mg': "map_of g' = (map_of (graph s))(v1 \<mapsto> a1 @ [v2], v2 \<mapsto> a2 @ [v1])"
    by (simp add: g'_def update_conv')
  have G: "graph s' = g'" "degrees s' = degrees_of g'" "num_edges s' = num_edges s + 1"
    by (simp_all add: s'_def)
  have cases3: "(x = v2 \<and> adj = a2 @ [v1]) \<or> (x = v1 \<and> adj = a1 @ [v2])
      \<or> (x \<noteq> v1 \<and> x \<noteq> v2 \<and> map_of (graph s) x = Some adj)"
    if "map_of g' x = Some adj" for x adj
    using that ne by (auto simp: mg' split: if_splits)
  have "wf_surface s'"
  proof (rule wf_surfaceI; (unfold G)?)
    show "distinct (map fst g')"
      unfolding g'_def by (intro distinct_update W(1))
  next
    fix x adj assume h: "map_of g' x = Some adj"
    from cases3 [OF h] show "distinct (filter (\<lambda>u. u \<noteq> x) adj)"
      using W(2) [OF m1] W(2) [OF m2] W(2) [of x adj] n12 n21 ne by auto
    from cases3 [OF h] show "self_paired x adj"
      using sp_append_other [OF W(3) [OF m1], of v2] sp_append_other [OF W(3) [OF m2], of v1]
        W(3) [of x adj] ne
      by auto
  next
    fix x adj u assume h: "map_of g' x = Some adj" and u: "u \<in> set adj"
    have old: "\<exists>adj'. map_of g' u = Some adj' \<and> y \<in> set adj'"
      if "map_of (graph s) u = Some b" "y \<in> set b" for u b y
      using that m1 m2 by (auto simp: mg')
    from cases3 [OF h] consider (a) "x = v2" "adj = a2 @ [v1]" | (b) "x = v1" "adj = a1 @ [v2]"
      | (c) "map_of (graph s) x = Some adj" by blast
    then show "\<exists>adj'. map_of g' u = Some adj' \<and> x \<in> set adj'"
    proof cases
      case a
      show ?thesis
      proof (cases "u = v1")
        case True
        then show ?thesis using a ne by (simp add: mg')
      next
        case False
        then have "u \<in> set a2" using u a by simp
        from W(4) [OF m2 this] obtain b where "map_of (graph s) u = Some b" "v2 \<in> set b"
          by blast
        from old [OF this] a show ?thesis by simp
      qed
    next
      case b
      show ?thesis
      proof (cases "u = v2")
        case True
        then show ?thesis using b by (simp add: mg')
      next
        case False
        then have "u \<in> set a1" using u b by simp
        from W(4) [OF m1 this] obtain c where "map_of (graph s) u = Some c" "v1 \<in> set c"
          by blast
        from old [OF this] b show ?thesis by simp
      qed
    next
      case c
      from W(4) [OF c u] obtain b where "map_of (graph s) u = Some b" "x \<in> set b"
        by blast
      from old [OF this] show ?thesis .
    qed
  next
    show "degrees_of g' = degrees_of g'" by simp
  next
    have d2': "map_of (AList.update v1 (int (length a1) + 1) (degrees s)) v2
        = Some (int (length a2))"
      using d2 ne by (simp add: update_conv')
    have tot: "total_degree (degrees_of g') = total_degree (degrees s) + 2"
      unfolding dg
      by (simp add: total_degree_update [OF d2'] total_degree_update [OF d1])
    show "num_edges s + 1 = real_of_int (total_degree (degrees_of g')) / 2"
      by (simp add: tot W(6))
  qed
  with run show ?thesis by blast
qed

lemma add_edge_wf:
  assumes "wf_surface s" and "map_of (graph s) v1 = Some a1"
    and "map_of (graph s) v2 = Some a2" and "v2 \<notin> set a1"
  shows "\<exists>s'. add_edge s (v1, v2) = Inr s' \<and> wf_surface s'"
proof (cases "v1 = v2")
  case True
  then show ?thesis using add_edge_self_wf [OF assms(1,2)] assms(4) by simp
next
  case False
  then show ?thesis by (rule add_edge_other_wf [OF assms(1,2,3) _ assms(4)])
qed

lemma remove_vertex_wf:
  assumes w: "wf_surface s" and m: "map_of (graph s) v = Some nbrs"
  shows "\<exists>s'. remove_vertex s v = Inr s' \<and> wf_surface s'"
proof -
  note W = wf_surfaceD [OF w]
  define us where "us = remove1 v nbrs"
  have dn: "distinct us"
    unfolding us_def by (rule distinct_remove1_self [OF W(2) [OF m] W(3) [OF m]])
  have sub: "set us \<subseteq> set nbrs" unfolding us_def by (rule set_remove1_subset)
  have other: "x \<in> set us" if "x \<in> set nbrs" "x \<noteq> v" for x
    using that by (simp add: us_def)
  have pre: "\<forall>u \<in> set us. \<exists>adj. map_of (graph s) u = Some adj \<and> v \<in> set adj"
    using W(4) [OF m] sub by blast
  from rv_fold_ok [OF dn pre W(5)] obtain s1 where
    r: "rv_fold v us s = Inr s1"
    and k: "map fst (graph s1) = map fst (graph s)"
    and mm: "\<forall>u. map_of (graph s1) u =
             (if u \<in> set us then map_option (remove1 v) (map_of (graph s) u)
              else map_of (graph s) u)"
    and dd: "degrees s1 = degrees_of (graph s1)"
    and nn: "num_edges s1 = num_edges s - real (length us)"
    and tt: "total_degree (degrees s1) = total_degree (degrees s) - int (length us)"
    by blast
  have loop: "remove_vertex_loop v nbrs 0 s = Inr s1"
    using rv_loop_remove1 [OF W(3) [OF m], of s] r by (simp only: us_def)
  have m1: "map_of (graph s1) v = Some us"
  proof (cases "v \<in> set nbrs")
    case False
    then have e: "us = nbrs" unfolding us_def by (rule remove1_idem)
    then have "v \<notin> set us" using False by simp
    then have "map_of (graph s1) v = map_of (graph s) v" using mm by simp
    then show ?thesis using m e by simp
  next
    case True
    from sp_decomp [OF W(3) [OF m] True] obtain pre post where
      a: "nbrs = pre @ v # v # post" and p: "v \<notin> set pre" by blast
    have "us = pre @ v # post" unfolding us_def a using p by (simp add: remove1_append)
    then have "v \<in> set us" by simp
    then have "map_of (graph s1) v = map_option (remove1 v) (map_of (graph s) v)"
      using mm by simp
    then show ?thesis using m by (simp add: us_def)
  qed
  have d1: "map_of (degrees s1) v = Some (int (length us))"
    by (simp add: dd map_of_degrees_of m1)
  define g' where "g' = AList.delete v (graph s1)"
  define s' where "s' = \<lparr>graph = g', degrees = AList.delete v (degrees s1),
                          num_edges = num_edges s1\<rparr>"
  have run: "remove_vertex s v = Inr s'"
    using m loop m1 d1 by (simp add: remove_vertex_def s'_def g'_def)
  have G: "graph s' = g'" "degrees s' = AList.delete v (degrees s1)"
      "num_edges s' = num_edges s1"
    by (simp_all add: s'_def)
  have dist1: "distinct (map fst (graph s1))" using k W(1) by simp
  have mg': "map_of g' x = (if x = v then None else
               if x \<in> set us then map_option (remove1 v) (map_of (graph s) x)
               else map_of (graph s) x)" for x
    using mm [rule_format, of x] by (simp add: g'_def delete_conv')
  have nbr_iff: "x \<in> set us" if "map_of (graph s) x = Some b" "v \<in> set b" "x \<noteq> v" for x b
  proof -
    from W(4) [OF that(1,2)] m have "x \<in> set nbrs" by auto
    then show ?thesis using other that(3) by blast
  qed
  have shape: "x \<noteq> v \<and> (\<exists>b. map_of (graph s) x = Some b
        \<and> (adj = remove1 v b \<or> adj = b) \<and> v \<notin> set adj)"
    if h: "map_of g' x = Some adj" for x adj
  proof -
    have xv: "x \<noteq> v" using h by (auto simp: mg')
    show ?thesis
    proof (cases "x \<in> set us")
      case True
      then obtain b where mb: "map_of (graph s) x = Some b" and adj: "adj = remove1 v b"
        using h xv by (auto simp: mg')
      have "v \<notin> set adj" unfolding adj by (rule once_removed [OF W(2) [OF mb]]) (use xv in simp)
      then show ?thesis using xv mb adj by blast
    next
      case False
      then have mb: "map_of (graph s) x = Some adj" using h xv by (simp add: mg')
      have "v \<notin> set adj" using nbr_iff [OF mb _ xv] False by blast
      then show ?thesis using xv mb by blast
    qed
  qed
  have "wf_surface s'"
  proof (rule wf_surfaceI; (unfold G)?)
    show "distinct (map fst g')"
      unfolding g'_def by (rule distinct_delete [OF dist1])
  next
    fix x adj assume h: "map_of g' x = Some adj"
    from shape [OF h] obtain b where xv: "x \<noteq> v" and mb: "map_of (graph s) x = Some b"
      and adj: "adj = remove1 v b \<or> adj = b" by blast
    show "distinct (filter (\<lambda>u. u \<noteq> x) adj)"
      using adj W(2) [OF mb] df_remove1 [of "\<lambda>u. u \<noteq> x" b v] by auto
    show "self_paired x adj"
      using adj W(3) [OF mb] sp_remove1 [of x b v] xv by auto
  next
    fix x adj u assume h: "map_of g' x = Some adj" and u: "u \<in> set adj"
    from shape [OF h] obtain b where xv: "x \<noteq> v" and mb: "map_of (graph s) x = Some b"
      and adj: "adj = remove1 v b \<or> adj = b" and vadj: "v \<notin> set adj" by blast
    have subb: "set adj \<subseteq> set b" using adj set_remove1_subset [of v b] by auto
    have uv: "u \<noteq> v" using u vadj by blast
    have "u \<in> set b" using u subb by blast
    from W(4) [OF mb this] obtain c where mc: "map_of (graph s) u = Some c"
      and xc: "x \<in> set c" by blast
    have "x \<in> set (remove1 v c)" using xc xv by simp
    then show "\<exists>adj'. map_of g' u = Some adj' \<and> x \<in> set adj'"
      using uv mc xc by (simp add: mg')
  next
    show "AList.delete v (degrees s1) = degrees_of g'"
      by (simp add: dd g'_def degrees_of_delete)
  next
    have distd: "distinct (map fst (degrees s1))"
      by (simp add: dd map_fst_degrees_of dist1)
    have tot: "total_degree (AList.delete v (degrees s1)) =
        total_degree (degrees s) - 2 * int (length us)"
      using total_degree_delete [OF distd d1] tt by simp
    show "num_edges s1 = real_of_int (total_degree (AList.delete v (degrees s1))) / 2"
      by (simp add: tot nn W(6) diff_divide_distrib)
  qed
  with run show ?thesis by blast
qed

subsection \<open>States with list objects and their views\<close>

lemma map_of_adjacency: "map_of (adjacency refs h) v = map_option h (map_of refs v)"
  by (induction refs) (auto simp: adjacency_def)

lemma map_fst_adjacency: "map fst (adjacency refs h) = map fst refs"
  by (induction refs) (auto simp: adjacency_def)

lemma adjacency_fresh: "r \<notin> snd ` set refs \<Longrightarrow> adjacency refs (h(r := x)) = adjacency refs h"
  by (induction refs) (auto simp: adjacency_def)

lemma adjacency_upd:
  "distinct (map snd refs) \<Longrightarrow> map_of refs v = Some r \<Longrightarrow>
   adjacency refs (h(r := x)) = AList.update v x (adjacency refs h)"
proof (induction refs)
  case Nil
  then show ?case by simp
next
  case (Cons p refs)
  obtain u q where p: "p = (u, q)" by (cases p)
  show ?case
  proof (cases "u = v")
    case True
    then have q: "q = r" using Cons.prems(2) p by simp
    have "r \<notin> snd ` set refs" using Cons.prems(1) p q by auto
    from adjacency_fresh [OF this] show ?thesis
      using True q p by (simp add: adjacency_def)
  next
    case False
    then have m: "map_of refs v = Some r" using Cons.prems(2) p by simp
    then have "(v, r) \<in> set refs" by (rule map_of_SomeD)
    then have "r \<in> snd ` set refs" by force
    then have qr: "q \<noteq> r" using Cons.prems(1) p by auto
    have d: "distinct (map snd refs)" using Cons.prems(1) by simp
    have "adjacency refs (h(r := x)) = AList.update v x (adjacency refs h)"
      by (rule Cons.IH [OF d m])
    then show ?thesis using False qr p by (simp add: adjacency_def)
  qed
qed

lemma adjacency_delete: "adjacency (AList.delete v refs) h = AList.delete v (adjacency refs h)"
  by (induction refs) (auto simp: adjacency_def)

lemma distinct_snd_delete:
  "distinct (map snd refs) \<Longrightarrow> distinct (map snd (AList.delete v refs))"
  by (simp add: AList.delete_eq distinct_map_filter)

lemma ref_inj:
  "distinct (map snd refs) \<Longrightarrow> map_of refs u = Some r \<Longrightarrow> map_of refs v = Some r \<Longrightarrow> u = v"
proof (induction refs)
  case Nil
  then show ?case by simp
next
  case (Cons p refs)
  obtain w q where p: "p = (w, q)" by (cases p)
  have fresh: "map_of refs x \<noteq> Some q" for x
  proof
    assume "map_of refs x = Some q"
    then have "(x, q) \<in> set refs" by (rule map_of_SomeD)
    then have "q \<in> snd ` set refs" by force
    then show False using Cons.prems(1) p by auto
  qed
  show ?case
    using Cons p fresh by (auto split: if_splits)
qed

lemma init_loop'_eq: "init_loop' seed h degs ne = init_loop (adjacency seed h) degs ne"
  by (induction seed arbitrary: degs ne) (auto simp: adjacency_def Let_def)

lemma view_init: "view (Surface_init' seed h) = Surface_init (adjacency seed h)"
  by (simp add: view_def Surface_init'_def Surface_init_def init_loop'_eq split: prod.splits)

lemma graph'_init: "graph' (Surface_init' seed h) = seed"
  by (simp add: Surface_init'_def split: prod.splits)

lemma view_simps:
  "graph (view s) = adjacency (graph' s) (heap s)"
  "degrees (view s) = degrees' s"
  "num_edges (view s) = num_edges' s"
  by (simp_all add: view_def)

lemma sim_add_edge:
  assumes u: "distinct (map snd (graph' s))"
  shows "case add_edge' s p of
           Inl e \<Rightarrow> add_edge (view s) p = Inl e
         | Inr s' \<Rightarrow> add_edge (view s) p = Inr (view s') \<and> graph' s' = graph' s"
proof -
  obtain v1 v2 where p: "p = (v1, v2)" by (cases p)
  show ?thesis
  proof (cases "map_of (graph' s) v1")
    case None
    then show ?thesis
      by (simp add: p add_edge'_def add_edge_def view_simps map_of_adjacency)
  next
    case (Some r1)
    define h1 where "h1 = (heap s)(r1 := heap s r1 @ [v2])"
    have e2: "AList.update v1 (heap s r1 @ [v2]) (adjacency (graph' s) (heap s))
        = adjacency (graph' s) h1"
      unfolding h1_def by (rule adjacency_upd [OF u Some, symmetric])
    show ?thesis
    proof (cases "map_of (graph' s) v2")
      case None
      then show ?thesis
        using Some
        by (simp add: p add_edge'_def add_edge_def view_simps map_of_adjacency Let_def e2
            h1_def [symmetric])
    next
      case r2: (Some r2)
      define h2 where "h2 = h1(r2 := h1 r2 @ [v1])"
      have e4: "AList.update v2 (h1 r2 @ [v1]) (adjacency (graph' s) h1)
          = adjacency (graph' s) h2"
        unfolding h2_def by (rule adjacency_upd [OF u r2, symmetric])
      show ?thesis
        using Some r2
        by (simp add: p add_edge'_def add_edge_def view_simps map_of_adjacency Let_def e2 e4
            h1_def [symmetric] h2_def [symmetric] view_def
            split: option.splits)
    qed
  qed
qed

declare remove_vertex_loop.simps [simp del]
declare remove_vertex_loop'.simps [simp del]

lemma sim_body:
  assumes u: "distinct (map snd (graph' s))"
  shows "case remove_vertex_body' vertex nbr s of
           Inl e \<Rightarrow> remove_vertex_body vertex nbr (view s) = Inl e
         | Inr s' \<Rightarrow>
             remove_vertex_body vertex nbr (view s) = Inr (view s')
             \<and> graph' s' = graph' s
             \<and> (\<exists>r. map_of (graph' s) nbr = Some r
                  \<and> heap s' = (heap s)(r := remove1 vertex (heap s r)))"
proof (cases "map_of (graph' s) nbr")
  case None
  then show ?thesis
    by (simp add: remove_vertex_body'_def remove_vertex_body_def view_simps map_of_adjacency)
next
  case (Some r)
  define h where "h = (heap s)(r := remove1 vertex (heap s r))"
  have e: "AList.update nbr (remove1 vertex (heap s r)) (adjacency (graph' s) (heap s))
      = adjacency (graph' s) h"
    unfolding h_def by (rule adjacency_upd [OF u Some, symmetric])
  show ?thesis
    using Some
    by (simp add: remove_vertex_body'_def remove_vertex_body_def view_simps map_of_adjacency
        Let_def e h_def [symmetric] view_def split: option.splits)
qed

lemma sim_loop:
  "distinct (map snd (graph' s)) \<Longrightarrow> map_of (graph' s) vertex = Some r \<Longrightarrow>
   (case remove_vertex_loop' vertex r i s of
      Inl e \<Rightarrow> remove_vertex_loop vertex (heap s r) i (view s) = Inl e
    | Inr s' \<Rightarrow>
        remove_vertex_loop vertex (heap s r) i (view s) = Inr (view s')
        \<and> graph' s' = graph' s)"
proof (induction vertex r i s rule: remove_vertex_loop'.induct)
  case (1 vertex r i s)
  note simps' = remove_vertex_loop'.simps [of vertex r i s]
  note simps = remove_vertex_loop.simps [of vertex "heap s r" i "view s"]
  show ?case
  proof (cases "i < length (heap s r)")
    case False
    then show ?thesis by (simp add: simps simps')
  next
    case True
    define nbr where "nbr = heap s r ! i"
    note b = sim_body [OF "1.prems"(1), of vertex nbr]
    show ?thesis
    proof (cases "remove_vertex_body' vertex nbr s")
      case (Inl e)
      then have "remove_vertex_body vertex nbr (view s) = Inl e" using b by simp
      then show ?thesis
        using True Inl
        by (simp add: simps simps' nbr_def [symmetric]
                )
    next
      case (Inr s1)
      then obtain rn where vb: "remove_vertex_body vertex nbr (view s) = Inr (view s1)"
        and g1: "graph' s1 = graph' s"
        and rn: "map_of (graph' s) nbr = Some rn"
        and h1: "heap s1 = (heap s)(rn := remove1 vertex (heap s rn))"
        using b by auto
      have iff: "(rn = r) = (nbr = vertex)"
        using ref_inj [OF "1.prems"(1) rn, of vertex] "1.prems"(2) rn by auto
      have hr: "heap s1 r = (if nbr = vertex then remove1 vertex (heap s r) else heap s r)"
        using iff by (auto simp: h1)
      have IH: "case remove_vertex_loop' vertex r (Suc i) s1 of
            Inl e \<Rightarrow> remove_vertex_loop vertex (heap s1 r) (Suc i) (view s1) = Inl e
          | Inr s' \<Rightarrow>
              remove_vertex_loop vertex (heap s1 r) (Suc i) (view s1) = Inr (view s')
              \<and> graph' s' = graph' s1"
        using "1.IH" [OF True Inr [unfolded nbr_def]] "1.prems" g1 by simp
      have l': "remove_vertex_loop' vertex r i s = remove_vertex_loop' vertex r (Suc i) s1"
        using True Inr by (simp add: simps' nbr_def [symmetric])
      have l: "remove_vertex_loop vertex (heap s r) i (view s)
          = remove_vertex_loop vertex (heap s1 r) (Suc i) (view s1)"
        using True vb
        by (simp add: simps nbr_def [symmetric] hr)
      show ?thesis unfolding l l' using IH g1 by (auto split: sum.splits)
    qed
  qed
qed

lemma sim_remove_vertex:
  assumes u: "distinct (map snd (graph' s))"
  shows "case remove_vertex' s v of
           Inl e \<Rightarrow> remove_vertex (view s) v = Inl e
         | Inr s' \<Rightarrow>
             remove_vertex (view s) v = Inr (view s')
             \<and> graph' s' = AList.delete v (graph' s)"
proof (cases "map_of (graph' s) v")
  case None
  then show ?thesis
    by (simp add: remove_vertex'_def remove_vertex_def view_simps map_of_adjacency)
next
  case (Some r)
  note l = sim_loop [OF u Some, of 0]
  show ?thesis
  proof (cases "remove_vertex_loop' v r 0 s")
    case (Inl e)
    then show ?thesis
      using l Some
      by (simp add: remove_vertex'_def remove_vertex_def view_simps map_of_adjacency)
  next
    case (Inr s1)
    then have vl: "remove_vertex_loop v (heap s r) 0 (view s) = Inr (view s1)"
      and g1: "graph' s1 = graph' s" using l by auto
    show ?thesis
      using Some Inr vl g1
      by (simp add: remove_vertex'_def remove_vertex_def view_simps map_of_adjacency
          adjacency_delete view_def split: option.splits)
  qed
qed

lemma mutate_wf:
  assumes u: "distinct (map snd (graph' s))" and w: "wf_surface (view s)"
    and p: "precondition s m"
  shows "\<exists>s'. mutate s m = Inr s' \<and> distinct (map snd (graph' s')) \<and> wf_surface (view s')"
proof (cases m)
  case (AddEdge v1 v2)
  from p AddEdge obtain r1 r2 where r1: "map_of (graph' s) v1 = Some r1"
    and r2: "map_of (graph' s) v2 = Some r2" and n: "v2 \<notin> set (heap s r1)"
    by (auto split: option.splits)
  have m1: "map_of (graph (view s)) v1 = Some (heap s r1)"
    and m2: "map_of (graph (view s)) v2 = Some (heap s r2)"
    using r1 r2 by (simp_all add: view_simps map_of_adjacency)
  from add_edge_wf [OF w m1 m2 n] obtain t where
    t: "add_edge (view s) (v1, v2) = Inr t" and wt: "wf_surface t" by blast
  from sim_add_edge [OF u, of "(v1, v2)"] t obtain s' where
    "add_edge' s (v1, v2) = Inr s'" "t = view s'" "graph' s' = graph' s"
    by (cases "add_edge' s (v1, v2)") auto
  then show ?thesis using AddEdge wt u by simp
next
  case (RemoveVertex v)
  from p RemoveVertex obtain r where r: "map_of (graph' s) v = Some r" by auto
  have m: "map_of (graph (view s)) v = Some (heap s r)"
    using r by (simp add: view_simps map_of_adjacency)
  from remove_vertex_wf [OF w m] obtain t where
    t: "remove_vertex (view s) v = Inr t" and wt: "wf_surface t" by blast
  from sim_remove_vertex [OF u, of v] t obtain s' where
    "remove_vertex' s v = Inr s'" "t = view s'" "graph' s' = AList.delete v (graph' s)"
    by (cases "remove_vertex' s v") auto
  then show ?thesis using RemoveVertex wt distinct_snd_delete [OF u, of v] by simp
qed

lemma run_wf:
  "distinct (map snd (graph' s)) \<Longrightarrow> wf_surface (view s) \<Longrightarrow> admissible s ms \<Longrightarrow>
   \<exists>s'. run s ms = Inr s' \<and> wf_surface (view s')"
proof (induction ms arbitrary: s)
  case Nil
  then show ?case by simp
next
  case (Cons m ms)
  from Cons.prems have p: "precondition s m" by simp
  from mutate_wf [OF Cons.prems(1,2) p] obtain s1 where
    s1: "mutate s m = Inr s1" and u1: "distinct (map snd (graph' s1))"
    and w1: "wf_surface (view s1)" by blast
  have "admissible s1 ms" using Cons.prems(3) s1 by simp
  from Cons.IH [OF u1 w1 this] s1 show ?case by simp
qed

subsection \<open>Concrete runs\<close>

lemma square_init:
  "Surface_init [(0::int, [1::int, 3]), (1, [0, 2]), (2, [1, 3]), (3, [2, 0])] =
     \<lparr>graph = [(0, [1, 3]), (1, [0, 2]), (2, [1, 3]), (3, [2, 0])],
      degrees = [(0, 2), (1, 2), (2, 2), (3, 2)], num_edges = 4\<rparr>"
  by (simp add: Surface_init_def)

lemmas surface'_eval =
  Surface_init'_def add_edge'_def remove_vertex'_def remove_vertex_body'_def
  remove_vertex_loop'.simps adjacency_def view_def unshared_def Let_def

subsection \<open>The invariants along every admissible sequence\<close>

text \<open>
  Claim C2, as amended. Build a \<open>Surface\<close> from a seed in which no two keys hold the same
  list object and whose adjacency is symmetric and has no duplicated edge (no list
  names another vertex twice; a list names its own vertex not at all, or twice in a
  row for a self-loop), and make any sequence of \<open>add_edge\<close> and \<open>remove_vertex\<close> calls
  that respect their preconditions (the endpoints of a new edge are vertices, possibly
  the same one, and the edge is not there yet; a removed vertex is a vertex). Then no
  call raises, and in the resulting state the adjacency lists are symmetric,
  \<open>degrees[v]\<close> is the length of the adjacency list of every vertex \<open>v\<close>, and \<open>num_edges\<close>
  is exactly half the sum of the degrees. The two stored fields are updated by the
  calls themselves; nothing is recomputed from the graph.
\<close>

theorem surface_invariants:
  "unshared seed \<Longrightarrow> simple_adj (adjacency seed h) \<Longrightarrow> symmetric_adj (adjacency seed h) \<Longrightarrow>
   admissible (Surface_init' seed h) ms \<Longrightarrow>
   \<exists>s. run (Surface_init' seed h) ms = Inr s
     \<and> symmetric_adj (graph (view s)) \<and> degrees_match (view s) \<and> edges_match (view s)"
proof -
  assume u: "unshared seed"
    and a: "simple_adj (adjacency seed h)" "symmetric_adj (adjacency seed h)"
    and b: "admissible (Surface_init' seed h) ms"
  have u': "distinct (map snd (graph' (Surface_init' seed h)))"
    using u by (simp add: graph'_init unshared_def)
  have w: "wf_surface (view (Surface_init' seed h))"
    unfolding view_init by (rule seed_wf [OF a])
  from run_wf [OF u' w b] obtain s where
    "run (Surface_init' seed h) ms = Inr s" "wf_surface (view s)" by blast
  with wf_consistent [of "view s"] show ?thesis by blast
qed

theorem surface_invariants_witness:
  "unshared [(0::int, 10), (1, 11), (2, 12), (3, 13)]
   \<and> simple_adj (adjacency [(0::int, 10), (1, 11), (2, 12), (3, 13)]
        ((\<lambda>r. [])(10 := [1::int, 3], 11 := [0, 2], 12 := [1, 3], 13 := [2, 0])))
   \<and> symmetric_adj (adjacency [(0::int, 10), (1, 11), (2, 12), (3, 13)]
        ((\<lambda>r. [])(10 := [1::int, 3], 11 := [0, 2], 12 := [1, 3], 13 := [2, 0])))
   \<and> admissible (Surface_init' [(0::int, 10), (1, 11), (2, 12), (3, 13)]
        ((\<lambda>r. [])(10 := [1::int, 3], 11 := [0, 2], 12 := [1, 3], 13 := [2, 0])))
        [AddEdge 0 0, AddEdge 0 2, RemoveVertex 0]
   \<and> (\<exists>s. run (Surface_init' [(0::int, 10), (1, 11), (2, 12), (3, 13)]
          ((\<lambda>r. [])(10 := [1::int, 3], 11 := [0, 2], 12 := [1, 3], 13 := [2, 0])))
          [AddEdge 0 0, AddEdge 0 2, RemoveVertex 0] = Inr s
        \<and> graph (view s) = [(1, [2]), (2, [1, 3]), (3, [2])]
        \<and> degrees (view s) = [(1, 1), (2, 2), (3, 1)]
        \<and> num_edges (view s) = 2
        \<and> symmetric_adj (graph (view s)) \<and> degrees_match (view s) \<and> edges_match (view s))"
proof -
  let ?seed = "[(0::int, 10::nat), (1, 11), (2, 12), (3, 13)]"
  let ?h = "(\<lambda>r. [])(10 := [1::int, 3], 11 := [0, 2], 12 := [1, 3], 13 := [2, 0])"
  let ?ms = "[AddEdge (0::int) 0, AddEdge 0 2, RemoveVertex 0]"
  have a: "unshared ?seed" by (simp add: unshared_def)
  have b: "simple_adj (adjacency ?seed ?h)" by (simp add: adjacency_def simple_adj_def)
  have c: "symmetric_adj (adjacency ?seed ?h)" by (simp add: adjacency_def symmetric_adj_def)
  have d: "admissible (Surface_init' ?seed ?h) ?ms" by (simp add: surface'_eval)
  from surface_invariants [OF a b c d] obtain s where
    r: "run (Surface_init' ?seed ?h) ?ms = Inr s"
    and i: "symmetric_adj (graph (view s))" "degrees_match (view s)" "edges_match (view s)"
    by blast
  have v: "graph (view s) = [(1, [2]), (2, [1, 3]), (3, [2])]
      \<and> degrees (view s) = [(1, 1), (2, 2), (3, 1)] \<and> num_edges (view s) = 2"
    using r by (auto simp: surface'_eval)
  from a b c d r i v show ?thesis by blast
qed

text \<open>
  Symmetry of the seed alone is not enough. With the seed \<open>{0: [0]}\<close> the loop of
  \<open>remove_vertex(0)\<close> runs once and leaves \<open>num_edges = 0.5 - 1\<close> on an empty graph. With
  the seed \<open>{0: [1, 1], 1: [0]}\<close> the call \<open>remove_vertex(1)\<close> strikes one of the two
  entries \<open>1\<close> from the list of \<open>0\<close>, which then names a vertex that is gone. With the
  seed \<open>{0: L, 2: L, 1: [0, 2]}\<close>, where \<open>L = [1]\<close> is one list object held by two keys,
  the adjacency is symmetric without a duplicated edge, and \<open>remove_vertex(1)\<close> raises
  ValueError: the entry \<open>1\<close> is struck from \<open>L\<close> through the key \<open>0\<close> and is missing when
  the loop comes to the key \<open>2\<close>. With the seed \<open>{0: [0, 1, 0], 1: [0]}\<close>, where the two
  entries of the self-loop are not in a row, \<open>remove_vertex(0)\<close> strikes both of them from
  the list it iterates over and never reaches the entry \<open>1\<close>: the list of \<open>1\<close> keeps naming
  the vertex that is gone.
\<close>

theorem surface_invariants_counterexample:
  "symmetric_adj (adjacency [(0::int, 10)] ((\<lambda>r. [])(10 := [0::int])))
   \<and> unshared [(0::int, 10)]
   \<and> admissible (Surface_init' [(0::int, 10)] ((\<lambda>r. [])(10 := [0::int]))) [RemoveVertex 0]
   \<and> (\<exists>s. run (Surface_init' [(0::int, 10)] ((\<lambda>r. [])(10 := [0::int]))) [RemoveVertex 0] = Inr s
        \<and> graph (view s) = [] \<and> degrees (view s) = [] \<and> num_edges (view s) = - 1 / 2
        \<and> \<not> edges_match (view s))
   \<and> symmetric_adj (adjacency [(0::int, 10), (1, 11)] ((\<lambda>r. [])(10 := [1::int, 1], 11 := [0])))
   \<and> unshared [(0::int, 10), (1, 11)]
   \<and> admissible (Surface_init' [(0::int, 10), (1, 11)] ((\<lambda>r. [])(10 := [1::int, 1], 11 := [0])))
        [RemoveVertex 1]
   \<and> (\<exists>s. run (Surface_init' [(0::int, 10), (1, 11)] ((\<lambda>r. [])(10 := [1::int, 1], 11 := [0])))
          [RemoveVertex 1] = Inr s
        \<and> graph (view s) = [(0, [1])] \<and> \<not> symmetric_adj (graph (view s)))
   \<and> symmetric_adj (adjacency [(0::int, 10), (2, 10), (1, 11)]
        ((\<lambda>r. [])(10 := [1::int], 11 := [0, 2])))
   \<and> simple_adj (adjacency [(0::int, 10), (2, 10), (1, 11)]
        ((\<lambda>r. [])(10 := [1::int], 11 := [0, 2])))
   \<and> admissible (Surface_init' [(0::int, 10), (2, 10), (1, 11)]
        ((\<lambda>r. [])(10 := [1::int], 11 := [0, 2]))) [RemoveVertex 1]
   \<and> run (Surface_init' [(0::int, 10), (2, 10), (1, 11)]
        ((\<lambda>r. [])(10 := [1::int], 11 := [0, 2]))) [RemoveVertex 1] = Inl ValueError
   \<and> symmetric_adj (adjacency [(0::int, 10), (1, 11)] ((\<lambda>r. [])(10 := [0::int, 1, 0], 11 := [0])))
   \<and> admissible (Surface_init' [(0::int, 10), (1, 11)]
        ((\<lambda>r. [])(10 := [0::int, 1, 0], 11 := [0]))) [RemoveVertex 0]
   \<and> (\<exists>s. run (Surface_init' [(0::int, 10), (1, 11)]
          ((\<lambda>r. [])(10 := [0::int, 1, 0], 11 := [0]))) [RemoveVertex 0] = Inr s
        \<and> graph (view s) = [(1, [0])] \<and> \<not> symmetric_adj (graph (view s)))"
proof -
  have 1: "symmetric_adj (adjacency [(0::int, 10)] ((\<lambda>r. [])(10 := [0::int])))"
    "symmetric_adj (adjacency [(0::int, 10), (1, 11)] ((\<lambda>r. [])(10 := [1::int, 1], 11 := [0])))"
    "symmetric_adj (adjacency [(0::int, 10), (2, 10), (1, 11)]
        ((\<lambda>r. [])(10 := [1::int], 11 := [0, 2])))"
    by (simp_all add: adjacency_def symmetric_adj_def)
  have 2: "simple_adj (adjacency [(0::int, 10), (2, 10), (1, 11)]
        ((\<lambda>r. [])(10 := [1::int], 11 := [0, 2])))"
    by (simp add: adjacency_def simple_adj_def)
  have 3: "unshared [(0::int, 10)]" "unshared [(0::int, 10), (1, 11)]"
    by (simp_all add: unshared_def)
  have 4: "\<exists>s. run (Surface_init' [(0::int, 10)] ((\<lambda>r. [])(10 := [0::int]))) [RemoveVertex 0] = Inr s
        \<and> graph (view s) = [] \<and> degrees (view s) = [] \<and> num_edges (view s) = - 1 / 2
        \<and> \<not> edges_match (view s)"
    by (simp add: surface'_eval edges_match_def total_degree_def)
  have 5: "\<exists>s. run (Surface_init' [(0::int, 10), (1, 11)] ((\<lambda>r. [])(10 := [1::int, 1], 11 := [0])))
          [RemoveVertex 1] = Inr s
        \<and> graph (view s) = [(0, [1])] \<and> \<not> symmetric_adj (graph (view s))"
    by (simp add: surface'_eval symmetric_adj_def)
  have 6: "run (Surface_init' [(0::int, 10), (2, 10), (1, 11)]
        ((\<lambda>r. [])(10 := [1::int], 11 := [0, 2]))) [RemoveVertex 1] = Inl ValueError"
    by (simp add: surface'_eval)
  have 7: "admissible (Surface_init' [(0::int, 10)] ((\<lambda>r. [])(10 := [0::int]))) [RemoveVertex 0]"
    "admissible (Surface_init' [(0::int, 10), (1, 11)] ((\<lambda>r. [])(10 := [1::int, 1], 11 := [0])))
        [RemoveVertex 1]"
    "admissible (Surface_init' [(0::int, 10), (2, 10), (1, 11)]
        ((\<lambda>r. [])(10 := [1::int], 11 := [0, 2]))) [RemoveVertex 1]"
    by (simp_all add: surface'_eval)
  have 8: "symmetric_adj (adjacency [(0::int, 10), (1, 11)]
        ((\<lambda>r. [])(10 := [0::int, 1, 0], 11 := [0])))"
    by (simp add: adjacency_def symmetric_adj_def)
  have 9: "admissible (Surface_init' [(0::int, 10), (1, 11)]
        ((\<lambda>r. [])(10 := [0::int, 1, 0], 11 := [0]))) [RemoveVertex 0]"
    by (simp add: surface'_eval)
  have 10: "\<exists>s. run (Surface_init' [(0::int, 10), (1, 11)]
          ((\<lambda>r. [])(10 := [0::int, 1, 0], 11 := [0]))) [RemoveVertex 0] = Inr s
        \<and> graph (view s) = [(1, [0])] \<and> \<not> symmetric_adj (graph (view s))"
    by (simp add: surface'_eval symmetric_adj_def)
  from 1 2 3 4 5 6 7 8 9 10 show ?thesis by blast
qed

subsection \<open>Absent vertices\<close>

text \<open>
  Claim C6. In every graph state, \<open>remove_vertex\<close> of a vertex that is not a key of
  \<open>graph\<close>, and \<open>add_edge\<close> of a pair with an endpoint that is not a key of \<open>graph\<close>,
  raise: the dictionary lookup fails with Python's KeyError, which nothing in the
  class catches. KeyError is the exception the specification calls
  GraphConsistencyError.
\<close>

theorem absent_vertex_raises:
  "(map_of (graph s) v = None \<longrightarrow> remove_vertex s v = Inl KeyError)
   \<and> (map_of (graph s) v1 = None \<or> map_of (graph s) v2 = None \<longrightarrow>
        add_edge s (v1, v2) = Inl KeyError)"
  by (auto simp: remove_vertex_def add_edge_def Let_def update_conv' split: option.splits)

theorem absent_vertex_raises_witness:
  "remove_vertex (Surface_init [(0::int, [1::int, 3]), (1, [0, 2]), (2, [1, 3]), (3, [2, 0])]) 7
     = Inl KeyError
   \<and> add_edge (Surface_init [(0::int, [1::int, 3]), (1, [0, 2]), (2, [1, 3]), (3, [2, 0])]) (0, 7)
     = Inl KeyError
   \<and> add_edge (Surface_init [(0::int, [1::int, 3]), (1, [0, 2]), (2, [1, 3]), (3, [2, 0])]) (7, 0)
     = Inl KeyError"
  using absent_vertex_raises
    [of "Surface_init [(0::int, [1::int, 3]), (1, [0, 2]), (2, [1, 3]), (3, [2, 0])]" 7 0 7]
    absent_vertex_raises
    [of "Surface_init [(0::int, [1::int, 3]), (1, [0, 2]), (2, [1, 3]), (3, [2, 0])]" 7 7 0]
  by (simp add: square_init)

subsection \<open>Stationary distribution\<close>

text \<open>
  Claim C4, as amended. For degrees that fit 32-bit integers,
  \<open>get_rw_stationary_distribution\<close> returns, in the order of the vertices, the vector
  of \<open>degree(v) / (2 num_edges)\<close> when \<open>num_edges > 0\<close>. When \<open>num_edges = 0\<close> the call
  does not fail: numpy divides by zero and returns \<open>nan\<close> for every vertex of degree 0
  (an infinity for any other degree).
\<close>

theorem stationary_distribution:
  "list_all fits_int32 (map snd (degrees s)) \<longrightarrow>
     (0 < num_edges s \<longrightarrow>
        get_rw_stationary_distribution s =
          Inr (map (\<lambda>(v, d). Finite (real_of_int d / (2 * num_edges s))) (degrees s)))
     \<and> (num_edges s = 0 \<longrightarrow>
        get_rw_stationary_distribution s =
          Inr (map (\<lambda>(v, d). if d = 0 then NaN else if 0 < d then PosInf else NegInf)
                 (degrees s)))"
  by (auto simp: get_rw_stationary_distribution_def Let_def np_true_divide_def)

theorem stationary_distribution_witness:
  "get_rw_stationary_distribution
     (Surface_init [(0::int, [1::int, 3]), (1, [0, 2]), (2, [1, 3]), (3, [2, 0])])
     = Inr [Finite (1 / 4), Finite (1 / 4), Finite (1 / 4), Finite (1 / 4)]
   \<and> get_rw_stationary_distribution (Surface_init [(0::int, []), (1, [])]) = Inr [NaN, NaN]"
  using stationary_distribution
    [of "Surface_init [(0::int, [1::int, 3]), (1, [0, 2]), (2, [1, 3]), (3, [2, 0])]"]
    stationary_distribution [of "Surface_init [(0::int, []), (1, [])]"]
  by (simp add: square_init Surface_init_def fits_int32_def)

text \<open>
  A graph of two isolated vertices has \<open>num_edges = 0\<close>; the call returns
  \<open>[nan, nan]\<close> and raises nothing.
\<close>

theorem stationary_zero_edges_counterexample:
  "num_edges (Surface_init [(0::int, []), (1, [])]) = 0
   \<and> get_rw_stationary_distribution (Surface_init [(0::int, []), (1, [])]) = Inr [NaN, NaN]"
  by (simp add: Surface_init_def get_rw_stationary_distribution_def Let_def
      fits_int32_def np_true_divide_def)

section \<open>Properties of the world grid and the agents\<close>

subsection \<open>Addressing the grid\<close>

lemma cell_Some_iff:
  "(cell w (x, y, z) \<noteq> None) =
     (- int (width w) \<le> x \<and> x < int (width w)
      \<and> - int (length' w) \<le> y \<and> y < int (length' w)
      \<and> - int (height w) \<le> z \<and> z < int (height w))"
  by (auto simp: cell_def norm_index_def split: option.splits if_splits)

lemma cell_wrap:
  assumes "- int (width w) \<le> x" "x < int (width w)"
    and "- int (length' w) \<le> y" "y < int (length' w)"
    and "- int (height w) \<le> z" "z < int (height w)"
  shows "cell w (x, y, z) =
     Some (nat (x mod int (width w)), nat (y mod int (length' w)), nat (z mod int (height w)))"
proof -
  have n: "norm_index n i = Some (nat (i mod int n))" if "- int n \<le> i" "i < int n" for n i
  proof (cases "0 \<le> i")
    case True
    then show ?thesis using that by (simp add: norm_index_def)
  next
    case False
    then have "i mod int n = int n + i"
      using that by (smt (verit) mod_add_self1 mod_pos_pos_trivial)
    then show ?thesis using False that by (simp add: norm_index_def)
  qed
  show ?thesis using assms by (simp add: cell_def n)
qed

lemma grid_set_cell: "grid_set w p v = Inr w' \<Longrightarrow> cell w' q = cell w q"
  by (cases q) (auto simp: grid_set_def cell_def split: option.splits)

lemma grid_set_Inl: "grid_set w p v = Inl e \<Longrightarrow> e = IndexError"
  by (auto simp: grid_set_def split: option.splits)

lemma grid_set_out: "cell w p = None \<Longrightarrow> grid_set w p v = Inl IndexError"
  by (simp add: grid_set_def)

lemma cell_None_iff: "(cell w p = None) = (\<not> in_range w p)"
proof -
  obtain x y z where p: "p = (x, y, z)" by (cases p)
  have "(cell w (x, y, z) \<noteq> None) = in_range w (x, y, z)"
    unfolding in_range_def by (simp only: cell_Some_iff prod.case)
  then show ?thesis unfolding p by blast
qed

lemma grid_set_in: "in_range w p \<Longrightarrow> \<exists>w'. grid_set w p v = Inr w'"
  using cell_None_iff [of w p] by (auto simp: grid_set_def split: option.splits)

lemma grid_set_range: "grid_set w p v = Inr w' \<Longrightarrow> in_range w' q = in_range w q"
  using grid_set_cell [of w p v w' q] cell_None_iff [of w q] cell_None_iff [of w' q]
  by auto

lemma grid_get_SomeD:
  "grid_get w p = Inr v \<Longrightarrow> \<exists>c. cell w p = Some c \<and> grid w c = v"
  by (auto simp: grid_get_def split: option.splits)

lemmas world_eval =
  World_init_def init_objects_def in_shape_def cell_def norm_index_def
  grid_get_def grid_set_def times_set_def place_def move_def pickup_def drop'_def
  pickup_algorithm_def Let_def

text \<open>
  Claim C7, as amended. An operation that accesses the grid at a supplied coordinate
  raises IndexError when a component of the coordinate lies outside \<open>[-n, n)\<close> for the
  size \<open>n\<close> of its axis: placing the agent there, moving or dropping to it,
  \<open>Agent.pickup\<close> of an agent standing there, and the pickup algorithm that reads it as
  the voxel below its position. A coordinate whose components all lie in \<open>[-n, n)\<close> is
  no error in itself, a negative component \<open>c\<close> addressing the cell \<open>c mod n = n + c\<close>:
  placement marks that cell; a move or a drop to it returns exactly when the position
  the agent leaves is in range as well; \<open>Agent.pickup\<close> of an agent standing there
  returns exactly when the voxel below, \<open>(x, y, z - 1)\<close>, is in range as well (it is not
  at \<open>z = -height\<close>); the pickup algorithm that reads it returns when its helper
  \<open>local_grid_data\<close> does.
\<close>

theorem out_of_range_raises:
  "(\<not> in_range w (x, y, z) \<longrightarrow>
      place (a\<lparr>pos := (x, y, z)\<rparr>) w = Inl IndexError
      \<and> move a w (x, y, z) = Inl IndexError
      \<and> drop' a w (x, y, z) = Inl IndexError
      \<and> pickup (a\<lparr>pos := (x, y, z)\<rparr>) w = Inl IndexError
      \<and> pickup_algorithm local_grid_data (x, y, z + 1) w x_rand = Inl IndexError)
   \<and> (in_range w (x, y, z) \<longrightarrow>
      place (a\<lparr>pos := (x, y, z)\<rparr>) w =
        Inr (w\<lparr>grid := (grid w)
           ((nat (x mod int (width w)), nat (y mod int (length' w)), nat (z mod int (height w)))
              := - 2)\<rparr>))
   \<and> (in_range w (x, y, z) \<and> in_range w (pos a) \<longrightarrow>
      (\<exists>w'. move a w (x, y, z) = Inr (a\<lparr>pos := (x, y, z)\<rparr>, w'))
      \<and> (\<exists>w'. drop' a w (x, y, z) = Inr (a\<lparr>pos := (x, y, z), has_pellet := 0\<rparr>, w')))
   \<and> (\<not> in_range w (pos a) \<longrightarrow>
      move a w (x, y, z) = Inl IndexError \<and> drop' a w (x, y, z) = Inl IndexError)
   \<and> (in_range w (x, y, z) \<and> in_range w (x, y, z - 1) \<longrightarrow>
      (\<exists>w'. pickup (a\<lparr>pos := (x, y, z)\<rparr>) w
         = Inr (a\<lparr>pos := (x, y, z - 1), has_pellet := 1\<rparr>, w')))
   \<and> (\<not> in_range w (x, y, z - 1) \<longrightarrow>
      pickup (a\<lparr>pos := (x, y, z)\<rparr>) w = Inl IndexError)
   \<and> (in_range w (x, y, z) \<and> local_grid_data (x, y, z + 1) w = Inr v26 \<longrightarrow>
      (\<exists>res w'. pickup_algorithm local_grid_data (x, y, z + 1) w x_rand = Inr (res, w')))"
proof (intro conjI impI)
  assume out: "\<not> in_range w (x, y, z)"
  then have c: "cell w (x, y, z) = None" by (simp add: cell_None_iff)
  show "place (a\<lparr>pos := (x, y, z)\<rparr>) w = Inl IndexError"
    by (simp add: place_def grid_set_def c)
  have c': "grid_set w' (x, y, z) u = Inl IndexError" if "grid_set w q v = Inr w'" for w' q v u
    using grid_set_cell [OF that, of "(x, y, z)"] c by (simp add: grid_set_out)
  show "move a w (x, y, z) = Inl IndexError"
  proof (cases "grid_set w (pos a) 0")
    case (Inl e)
    then show ?thesis using grid_set_Inl [OF Inl] by (simp add: move_def)
  next
    case (Inr w1)
    then show ?thesis using c' [OF Inr] by (simp add: move_def place_def)
  qed
  show "drop' a w (x, y, z) = Inl IndexError"
  proof (cases "grid_set w (pos a) 2")
    case (Inl e)
    then show ?thesis using grid_set_Inl [OF Inl] by (simp add: drop'_def)
  next
    case (Inr w1)
    then show ?thesis using c' [OF Inr] by (simp add: drop'_def place_def)
  qed
  show "pickup (a\<lparr>pos := (x, y, z)\<rparr>) w = Inl IndexError"
  proof (cases "grid_set w (x, y, z - 1) 0")
    case (Inl e)
    then show ?thesis using grid_set_Inl [OF Inl] by (simp add: pickup_def)
  next
    case (Inr w1)
    then show ?thesis using c' [OF Inr] by (simp add: pickup_def)
  qed
  show "pickup_algorithm local_grid_data (x, y, z + 1) w x_rand = Inl IndexError"
    by (simp add: pickup_algorithm_def grid_get_def c)
next
  assume "in_range w (x, y, z)"
  then show "place (a\<lparr>pos := (x, y, z)\<rparr>) w =
        Inr (w\<lparr>grid := (grid w)
           ((nat (x mod int (width w)), nat (y mod int (length' w)), nat (z mod int (height w)))
              := - 2)\<rparr>)"
    by (simp add: place_def grid_set_def cell_wrap in_range_def)
next
  assume h: "in_range w (x, y, z) \<and> in_range w (pos a)"
  show "\<exists>w'. move a w (x, y, z) = Inr (a\<lparr>pos := (x, y, z)\<rparr>, w')"
  proof -
    from grid_set_in [of w "pos a" 0] h obtain w1 where 1: "grid_set w (pos a) 0 = Inr w1"
      by blast
    have "in_range w1 (x, y, z)" using grid_set_range [OF 1] h by simp
    from grid_set_in [OF this, of "- 2"] obtain w2 where "grid_set w1 (x, y, z) (- 2) = Inr w2"
      by blast
    then show ?thesis using 1 by (simp add: move_def place_def)
  qed
  show "\<exists>w'. drop' a w (x, y, z) = Inr (a\<lparr>pos := (x, y, z), has_pellet := 0\<rparr>, w')"
  proof -
    from grid_set_in [of w "pos a" 2] h obtain w1 where 1: "grid_set w (pos a) 2 = Inr w1"
      by blast
    have "in_range w1 (x, y, z)" using grid_set_range [OF 1] h by simp
    from grid_set_in [OF this, of "- 2"] obtain w2 where "grid_set w1 (x, y, z) (- 2) = Inr w2"
      by blast
    then show ?thesis using 1 by (simp add: drop'_def place_def)
  qed
next
  assume "\<not> in_range w (pos a)"
  then have "grid_set w (pos a) v = Inl IndexError" for v
    by (simp add: grid_set_out cell_None_iff)
  then show "move a w (x, y, z) = Inl IndexError" "drop' a w (x, y, z) = Inl IndexError"
    by (simp_all add: move_def drop'_def)
next
  assume h: "in_range w (x, y, z) \<and> in_range w (x, y, z - 1)"
  from grid_set_in [of w "(x, y, z - 1)" 0] h obtain w1 where
    1: "grid_set w (x, y, z - 1) 0 = Inr w1" by blast
  have "in_range w1 (x, y, z)" using grid_set_range [OF 1] h by simp
  from grid_set_in [OF this, of 0] obtain w2 where 2: "grid_set w1 (x, y, z) 0 = Inr w2"
    by blast
  have "in_range w2 (x, y, z - 1)" using grid_set_range [OF 2] grid_set_range [OF 1] h by simp
  from grid_set_in [OF this, of "- 2"] obtain w3 where
    3: "grid_set w2 (x, y, z - 1) (- 2) = Inr w3" by blast
  show "\<exists>w'. pickup (a\<lparr>pos := (x, y, z)\<rparr>) w
         = Inr (a\<lparr>pos := (x, y, z - 1), has_pellet := 1\<rparr>, w')"
    using 1 2 3 by (simp add: pickup_def place_def)
next
  assume "\<not> in_range w (x, y, z - 1)"
  then have "grid_set w (x, y, z - 1) 0 = Inl IndexError"
    by (simp add: grid_set_out cell_None_iff)
  then show "pickup (a\<lparr>pos := (x, y, z)\<rparr>) w = Inl IndexError"
    by (simp add: pickup_def)
next
  assume h: "in_range w (x, y, z) \<and> local_grid_data (x, y, z + 1) w = Inr v26"
  then obtain c where c: "cell w (x, y, z) = Some c"
    using cell_None_iff [of w "(x, y, z)"] by (cases "cell w (x, y, z)") auto
  show "\<exists>res w'. pickup_algorithm local_grid_data (x, y, z + 1) w x_rand = Inr (res, w')"
    using h c by (simp add: pickup_algorithm_def grid_get_def grid_set_def Let_def)
qed

theorem out_of_range_raises_witness:
  "place (\<lparr>pos = (0, 0, 1), has_pellet = 0\<rparr>\<lparr>pos := (2, 0, 0)\<rparr>) (World_init 2 2 2 1 []) = Inl IndexError
   \<and> move \<lparr>pos = (0, 0, 1), has_pellet = 0\<rparr> (World_init 2 2 2 1 []) (2, 0, 0) = Inl IndexError
   \<and> drop' \<lparr>pos = (0, 0, 1), has_pellet = 0\<rparr> (World_init 2 2 2 1 []) (2, 0, 0) = Inl IndexError
   \<and> pickup (\<lparr>pos = (0, 0, 1), has_pellet = 0\<rparr>\<lparr>pos := (2, 0, 0)\<rparr>) (World_init 2 2 2 1 []) = Inl IndexError
   \<and> pickup_algorithm (\<lambda>p w. Inr []) (2, 0, 0 + 1) (World_init 2 2 2 1 []) 0 = Inl IndexError
   \<and> place (\<lparr>pos = (0, 0, 1), has_pellet = 0\<rparr>\<lparr>pos := (- 1, 0, 0)\<rparr>) (World_init 2 2 2 1 [])
       = Inr ((World_init 2 2 2 1 [])\<lparr>grid := (grid (World_init 2 2 2 1 []))((1, 0, 0) := - 2)\<rparr>)
   \<and> (\<exists>w'. move \<lparr>pos = (0, 0, 1), has_pellet = 0\<rparr> (World_init 2 2 2 1 []) (- 1, 0, 0)
          = Inr (\<lparr>pos = (- 1, 0, 0), has_pellet = 0\<rparr>, w'))
   \<and> (\<exists>w'. drop' \<lparr>pos = (0, 0, 1), has_pellet = 0\<rparr> (World_init 2 2 2 1 []) (- 1, 0, 0)
          = Inr (\<lparr>pos = (- 1, 0, 0), has_pellet = 0\<rparr>, w'))
   \<and> (\<exists>w'. pickup \<lparr>pos = (- 1, 0, 0), has_pellet = 0\<rparr> (World_init 2 2 2 1 [])
          = Inr (\<lparr>pos = (- 1, 0, - 1), has_pellet = 1\<rparr>, w'))
   \<and> (\<exists>res w'. pickup_algorithm (\<lambda>p w. Inr []) (- 1, 0, 1) (World_init 2 2 2 1 []) 0
          = Inr (res, w'))
   \<and> move \<lparr>pos = (5, 0, 0), has_pellet = 0\<rparr> (World_init 2 2 2 1 []) (0, 0, 0) = Inl IndexError
   \<and> drop' \<lparr>pos = (5, 0, 0), has_pellet = 0\<rparr> (World_init 2 2 2 1 []) (0, 0, 0) = Inl IndexError
   \<and> pickup \<lparr>pos = (0, 0, - 2), has_pellet = 0\<rparr> (World_init 2 2 2 1 []) = Inl IndexError"
proof -
  let ?W = "World_init 2 2 2 1 []"
  let ?A = "\<lparr>pos = (0, 0, 1), has_pellet = 0\<rparr>"
  have r: "\<not> in_range ?W (2, 0, 0)" "in_range ?W (- 1, 0, 0)" "in_range ?W (- 1, 0, - 1)"
    "in_range ?W (0, 0, 1)" "\<not> in_range ?W (5, 0, 0)" "\<not> in_range ?W (0, 0, - 3)"
    by (simp_all add: in_range_def World_init_def)
  note t1 = out_of_range_raises
    [where w = ?W and x = 2 and y = 0 and z = 0 and a = ?A
       and local_grid_data = "\<lambda>p w. Inr []" and x_rand = 0 and ?v26.0 = "[]"]
  note t2 = out_of_range_raises
    [where w = ?W and x = "- 1" and y = 0 and z = 0 and a = ?A
       and local_grid_data = "\<lambda>p w. Inr []" and x_rand = 0 and ?v26.0 = "[]"]
  note t3 = out_of_range_raises
    [where w = ?W and x = 0 and y = 0 and z = 0 and a = "\<lparr>pos = (5, 0, 0), has_pellet = 0\<rparr>"
       and local_grid_data = "\<lambda>p w. Inr []" and x_rand = 0 and ?v26.0 = "[]"]
  note t4 = out_of_range_raises
    [where w = ?W and x = 0 and y = 0 and z = "- 2" and a = ?A
       and local_grid_data = "\<lambda>p w. Inr []" and x_rand = 0 and ?v26.0 = "[]"]
  have 1: "place (?A\<lparr>pos := (2, 0, 0)\<rparr>) ?W = Inl IndexError
      \<and> move ?A ?W (2, 0, 0) = Inl IndexError
      \<and> drop' ?A ?W (2, 0, 0) = Inl IndexError
      \<and> pickup (?A\<lparr>pos := (2, 0, 0)\<rparr>) ?W = Inl IndexError
      \<and> pickup_algorithm (\<lambda>p w. Inr []) (2, 0, 0 + 1) ?W 0 = Inl IndexError"
    using t1 [THEN conjunct1] r(1) by blast
  have 2: "place (?A\<lparr>pos := (- 1, 0, 0)\<rparr>) ?W
       = Inr (?W\<lparr>grid := (grid ?W)((1, 0, 0) := - 2)\<rparr>)"
    using t2 [THEN conjunct2, THEN conjunct1] r(2) by (simp add: World_init_def)
  have 3: "(\<exists>w'. move ?A ?W (- 1, 0, 0) = Inr (\<lparr>pos = (- 1, 0, 0), has_pellet = 0\<rparr>, w'))
      \<and> (\<exists>w'. drop' ?A ?W (- 1, 0, 0) = Inr (\<lparr>pos = (- 1, 0, 0), has_pellet = 0\<rparr>, w'))"
    using t2 [THEN conjunct2, THEN conjunct2, THEN conjunct1] r(2,4) by simp
  have 4: "\<exists>w'. pickup \<lparr>pos = (- 1, 0, 0), has_pellet = 0\<rparr> ?W
          = Inr (\<lparr>pos = (- 1, 0, - 1), has_pellet = 1\<rparr>, w')"
    using t2 [THEN conjunct2, THEN conjunct2, THEN conjunct2, THEN conjunct2, THEN conjunct1]
      r(2,3) by simp
  have 5: "\<exists>res w'. pickup_algorithm (\<lambda>p w. Inr []) (- 1, 0, 1) ?W 0 = Inr (res, w')"
    using t2 [THEN conjunct2, THEN conjunct2, THEN conjunct2, THEN conjunct2, THEN conjunct2,
        THEN conjunct2] r(2) by simp
  have 6: "move \<lparr>pos = (5, 0, 0), has_pellet = 0\<rparr> ?W (0, 0, 0) = Inl IndexError
      \<and> drop' \<lparr>pos = (5, 0, 0), has_pellet = 0\<rparr> ?W (0, 0, 0) = Inl IndexError"
    using t3 [THEN conjunct2, THEN conjunct2, THEN conjunct2, THEN conjunct1] r(5) by simp
  have 7: "pickup \<lparr>pos = (0, 0, - 2), has_pellet = 0\<rparr> ?W = Inl IndexError"
    using t4 [THEN conjunct2, THEN conjunct2, THEN conjunct2, THEN conjunct2, THEN conjunct2,
        THEN conjunct1] r(6) by simp
  show ?thesis using 1 2 3 4 5 6 7 by simp
qed

text \<open>
  Claim C7, as stated for any negative component, does not hold. In a world
  of shape \<open>(2, 2, 2)\<close> placing an agent at \<open>(-1, 0, 0)\<close> raises nothing and marks the
  cell \<open>(1, 0, 0)\<close>; the pickup algorithm called at height \<open>0\<close> reads the cell
  \<open>(0, 0, -1)\<close>, which is the top cell \<open>(0, 0, 1)\<close>, and returns \<open>None\<close>.
\<close>

theorem negative_index_wraps_counterexample:
  "place \<lparr>pos = (- 1, 0, 0), has_pellet = 0\<rparr> (World_init 2 2 2 1 [])
     = Inr ((World_init 2 2 2 1 [])\<lparr>grid := (grid (World_init 2 2 2 1 []))((1, 0, 0) := - 2)\<rparr>)
   \<and> pickup_algorithm (\<lambda>p w. Inr []) (0, 0, 0) (World_init 2 2 2 1 []) 0
     = Inr (None, World_init 2 2 2 1 [])"
  by (simp add: world_eval)

subsection \<open>Pickup by an agent\<close>

text \<open>
  Claim C9. Let an agent stand at \<open>(x, y, z)\<close>, its cell holding the agent code, and
  let the pickup algorithm called at its position accept, returning a material and
  the world with the cell below emptied. Then \<open>Agent.pickup\<close> on that world succeeds,
  the agent's position is \<open>(x, y, z - 1)\<close>, that cell holds the agent code \<open>-2\<close>, the
  former cell \<open>(x, y, z)\<close> holds \<open>0\<close>, and \<open>has_pellet\<close> is \<open>1\<close>.
\<close>

theorem pickup_relocates:
  assumes "pos a = (x, y, z)"
    and "grid_get w (x, y, z) = Inr (- 2)"
    and "pickup_algorithm local_grid_data (x, y, z) w x_rand = Inr (Some material, w1)"
  shows "\<exists>a' w2. pickup a w1 = Inr (a', w2)
      \<and> pos a' = (x, y, z - 1)
      \<and> grid_get w2 (x, y, z - 1) = Inr (- 2)
      \<and> grid_get w2 (x, y, z) = Inr 0
      \<and> has_pellet a' = 1"
proof -
  from grid_get_SomeD [OF assms(2)] obtain c0 where
    c0: "cell w (x, y, z) = Some c0" and g0: "grid w c0 = - 2" by blast
  from assms(3) obtain below where
    b: "grid_get w (x, y, z - 1) = Inr below" and bp: "0 < below"
    and w1: "grid_set w (x, y, z - 1) 0 = Inr w1"
    by (auto simp: pickup_algorithm_def Let_def split: sum.splits if_splits)
  from grid_get_SomeD [OF b] obtain c1 where
    c1: "cell w (x, y, z - 1) = Some c1" and g1: "grid w c1 = below" by blast
  have ne: "c1 \<noteq> c0" using g0 g1 bp by auto
  have w1e: "w1 = w\<lparr>grid := (grid w)(c1 := 0)\<rparr>"
    using w1 c1 by (simp add: grid_set_def)
  have cw: "cell (w\<lparr>grid := g\<rparr>) q = cell w q" for g q
    by (cases q) (auto simp: cell_def split: option.splits)
  define w2 where "w2 = w\<lparr>grid := (grid w)(c1 := - 2, c0 := 0)\<rparr>"
  define a' where "a' = a\<lparr>pos := (x, y, z - 1), has_pellet := 1\<rparr>"
  have upd: "((grid w)(c0 := 0, c1 := - 2)) = (grid w)(c1 := - 2, c0 := 0)"
    using ne by (auto simp: fun_eq_iff)
  have run: "pickup a w1 = Inr (a', w2)"
    using assms(1) c0 c1
    by (simp add: pickup_def place_def grid_set_def w1e cw a'_def w2_def upd)
  have "grid_get w2 (x, y, z - 1) = Inr (- 2)"
    using c1 ne by (simp add: grid_get_def w2_def cw)
  moreover have "grid_get w2 (x, y, z) = Inr 0"
    using c0 by (simp add: grid_get_def w2_def cw)
  moreover have "pos a' = (x, y, z - 1)" "has_pellet a' = 1" by (simp_all add: a'_def)
  ultimately show ?thesis using run by blast
qed

theorem pickup_relocates_witness:
  "\<exists>a' w2.
      pickup \<lparr>pos = (0, 0, 2), has_pellet = 0\<rparr>
        ((World_init 2 2 3 2 [])\<lparr>grid := (grid (World_init 2 2 3 2 []))((0, 0, 2) := - 2, (0, 0, 1) := 0)\<rparr>)
        = Inr (a', w2)
    \<and> pos a' = (0, 0, 2 - 1)
    \<and> grid_get w2 (0, 0, 2 - 1) = Inr (- 2)
    \<and> grid_get w2 (0, 0, 2) = Inr 0
    \<and> has_pellet a' = 1"
proof -
  let ?w = "(World_init 2 2 3 2 [])\<lparr>grid := (grid (World_init 2 2 3 2 []))((0, 0, 2) := - 2)\<rparr>"
  let ?w1 = "(World_init 2 2 3 2 [])\<lparr>grid := (grid (World_init 2 2 3 2 []))((0, 0, 2) := - 2, (0, 0, 1) := 0)\<rparr>"
  have 1: "grid_get ?w (0, 0, 2) = Inr (- 2)" by (simp add: world_eval)
  have 2: "pickup_algorithm (\<lambda>p w. Inr []) (0, 0, 2) ?w 0 = Inr (Some 1, ?w1)"
    by (simp add: world_eval prob_pickup_def eta_p_def count_built_def)
  show ?thesis
    using pickup_relocates [of "\<lparr>pos = (0, 0, 2), has_pellet = 0\<rparr>" 0 0 2 ?w "\<lambda>p w. Inr []" 0 1 ?w1] 1 2
    by simp
qed

subsection \<open>Rejected pickups and drops\<close>

lemma fresh_below_bottom: "grid_get (World_init 2 2 2 1 []) (0, 0, 0 - 1) = Inr 0"
  by (simp add: world_eval)
lemma fresh_below_soil: "grid_get (World_init 2 2 2 1 []) (0, 0, 1 - 1) = Inr 1"
  by (simp add: world_eval)
lemma draw_one_rejected: "\<not> (1 :: real) < prob_pickup (count_built [2, 0])"
    by (simp add: prob_pickup_def)
lemma slice_range_two: "slice_range 2 0 2 = [0, 1]" "slice_range 2 0 3 = [0, 1]" "slice_range 2 0 1 = [0]"
  by (simp_all add: slice_range_def Let_def upt_rec)
lemma times_max_fresh: "times_max (World_init 2 2 2 1 []) (0, 0, 1) = Inr (- (10 ^ 9))"
  by (auto simp: times_max_def slice_range_two World_init_def Let_def)
lemma prob_drop_zero_cdf: "prob_drop (\<lambda>x a b c. 0) (count_built [2, 0]) 5 (- (10 ^ 9)) (1 / 1000) 1 = Inr 0"
  by (simp add: prob_drop_def Let_def count_built_def np_index_mod_list_in nth_mod_list)

text \<open>
  Claim C5. A call of the pickup or of the drop algorithm in which the action does
  not occur returns \<open>None\<close> and the world it was given: the pickup algorithm when the
  voxel below is not positive, or when it is and the draw is not below the pickup
  probability; the drop algorithm when there is no valid move, or when there is one
  and the draw is not below the drop probability. In the two cases of a draw, the
  helpers that are called before the draw are assumed to return. Moreover a call
  that returns \<open>None\<close> has changed neither the grid nor the times.
\<close>

theorem rejection_is_noop:
  "(grid_get w (x, y, z - 1) = Inr below \<and> \<not> 0 < below \<longrightarrow>
      pickup_algorithm local_grid_data (x, y, z) w x_rand = Inr (None, w))
   \<and> (grid_get w (x, y, z - 1) = Inr below \<and> 0 < below
        \<and> local_grid_data (x, y, z) w = Inr v26
        \<and> \<not> x_rand < prob_pickup (count_built v26) \<longrightarrow>
      pickup_algorithm local_grid_data (x, y, z) w x_rand = Inr (None, w))
   \<and> (local_grid_data p w = Inr v26 \<and> valid_moves v26 = [] \<longrightarrow>
      drop_algorithm cdf local_grid_data valid_moves compute_height p w step decay_rate x_rand r
        = Inr (None, w))
   \<and> (local_grid_data p w = Inr v26 \<and> valid_moves v26 \<noteq> []
        \<and> times_max w p = Inr t_latest \<and> compute_height p w = Inr h
        \<and> prob_drop cdf (count_built v26) step t_latest decay_rate h = Inr prob
        \<and> \<not> x_rand < prob \<longrightarrow>
      drop_algorithm cdf local_grid_data valid_moves compute_height p w step decay_rate x_rand r
        = Inr (None, w))
   \<and> (pickup_algorithm local_grid_data p w x_rand = Inr (None, w') \<longrightarrow> w' = w)
   \<and> (drop_algorithm cdf local_grid_data valid_moves compute_height p w step decay_rate x_rand r
        = Inr (None, w') \<longrightarrow> w' = w)"
proof (intro conjI impI)
  show "pickup_algorithm local_grid_data (x, y, z) w x_rand = Inr (None, w)"
    if "grid_get w (x, y, z - 1) = Inr below \<and> \<not> 0 < below"
    using that by (simp add: pickup_algorithm_def)
  show "pickup_algorithm local_grid_data (x, y, z) w x_rand = Inr (None, w)"
    if "grid_get w (x, y, z - 1) = Inr below \<and> 0 < below
        \<and> local_grid_data (x, y, z) w = Inr v26
        \<and> \<not> x_rand < prob_pickup (count_built v26)"
    using that by (simp add: pickup_algorithm_def Let_def)
  show "drop_algorithm cdf local_grid_data valid_moves compute_height p w step decay_rate x_rand r
        = Inr (None, w)"
    if "local_grid_data p w = Inr v26 \<and> valid_moves v26 = []"
    using that by (simp add: drop_algorithm_def)
  show "drop_algorithm cdf local_grid_data valid_moves compute_height p w step decay_rate x_rand r
        = Inr (None, w)"
    if "local_grid_data p w = Inr v26 \<and> valid_moves v26 \<noteq> []
        \<and> times_max w p = Inr t_latest \<and> compute_height p w = Inr h
        \<and> prob_drop cdf (count_built v26) step t_latest decay_rate h = Inr prob
        \<and> \<not> x_rand < prob"
    using that by (simp add: drop_algorithm_def Let_def)
  show "w' = w" if "pickup_algorithm local_grid_data p w x_rand = Inr (None, w')"
    using that
    by (cases p) (auto simp: pickup_algorithm_def Let_def split: sum.splits if_splits)
  show "w' = w"
    if "drop_algorithm cdf local_grid_data valid_moves compute_height p w step decay_rate x_rand r
        = Inr (None, w')"
    using that
    by (auto simp: drop_algorithm_def Let_def split: sum.splits if_splits)
qed

theorem rejection_is_noop_witness:
  "pickup_algorithm (\<lambda>p w. Inr [2, 0]) (0, 0, 0) (World_init 2 2 2 1 []) 0
     = Inr (None, World_init 2 2 2 1 [])
   \<and> pickup_algorithm (\<lambda>p w. Inr [2, 0]) (0, 0, 1) (World_init 2 2 2 1 []) 1
     = Inr (None, World_init 2 2 2 1 [])
   \<and> drop_algorithm (\<lambda>x a b c. 0) (\<lambda>p w. Inr [2, 0]) (\<lambda>v. ([] :: (nat \<times> coord) list))
        (\<lambda>p w. Inr 1) (0, 0, 1) (World_init 2 2 2 1 []) 5 (1 / 1000) 0 0
     = Inr (None, World_init 2 2 2 1 [])
   \<and> drop_algorithm (\<lambda>x a b c. 0) (\<lambda>p w. Inr [2, 0]) (\<lambda>v. [(0 :: nat, (1, 0, 0))])
        (\<lambda>p w. Inr 1) (0, 0, 1) (World_init 2 2 2 1 []) 5 (1 / 1000) 1 0
     = Inr (None, World_init 2 2 2 1 [])"
proof -
  let ?W = "World_init 2 2 2 1 []"
  note a = rejection_is_noop
      [where w = ?W and x = 0 and y = 0 and z = 0 and below = 0
         and local_grid_data = "\<lambda>p w. Inr [2, 0]" and x_rand = 0 and ?v26.0 = "[2, 0]"
         and p = "(0, 0, 1)" and valid_moves = "\<lambda>v. ([] :: (nat \<times> coord) list)"
         and cdf = "\<lambda>x a b c. 0" and compute_height = "\<lambda>p w. Inr 1" and step = 5
         and decay_rate = "1 / 1000" and r = 0 and t_latest = "- (10 ^ 9)" and h = 1
         and prob = 0 and w' = ?W]
  note b = rejection_is_noop
      [where w = ?W and x = 0 and y = 0 and z = 1 and below = 1
         and local_grid_data = "\<lambda>p w. Inr [2, 0]" and x_rand = 1 and ?v26.0 = "[2, 0]"
         and p = "(0, 0, 1)" and valid_moves = "\<lambda>v. [(0 :: nat, (1, 0, 0))]"
         and cdf = "\<lambda>x a b c. 0" and compute_height = "\<lambda>p w. Inr 1" and step = 5
         and decay_rate = "1 / 1000" and r = 0 and t_latest = "- (10 ^ 9)" and h = 1
         and prob = 0 and w' = ?W]
  have 1: "pickup_algorithm (\<lambda>p w. Inr [2, 0]) (0, 0, 0) ?W 0 = Inr (None, ?W)"
    using a [THEN conjunct1] fresh_below_bottom by simp
  have 2: "pickup_algorithm (\<lambda>p w. Inr [2, 0]) (0, 0, 1) ?W 1 = Inr (None, ?W)"
    using b [THEN conjunct2, THEN conjunct1] fresh_below_soil draw_one_rejected by simp
  have 3: "drop_algorithm (\<lambda>x a b c. 0) (\<lambda>p w. Inr [2, 0]) (\<lambda>v. ([] :: (nat \<times> coord) list))
        (\<lambda>p w. Inr 1) (0, 0, 1) ?W 5 (1 / 1000) 0 0 = Inr (None, ?W)"
    using a [THEN conjunct2, THEN conjunct2, THEN conjunct1] by simp
  have 4: "drop_algorithm (\<lambda>x a b c. 0) (\<lambda>p w. Inr [2, 0]) (\<lambda>v. [(0 :: nat, (1, 0, 0))])
        (\<lambda>p w. Inr 1) (0, 0, 1) ?W 5 (1 / 1000) 1 0 = Inr (None, ?W)"
    using b [THEN conjunct2, THEN conjunct2, THEN conjunct2, THEN conjunct1] times_max_fresh prob_drop_zero_cdf by simp
  show ?thesis using 1 2 3 4 by simp
qed

subsection \<open>Initial placement of the agents\<close>

lemma no_obj_fresh:
  "no_obj (World_init 2 2 3 2 []) = [(0, 0), (0, 1), (1, 0), (1, 1)]"
  by (simp add: no_obj_def World_init_def init_objects_def in_shape_def upt_rec)

lemma fresh_sel:
  "height (World_init 2 2 3 2 []) = 3" "soil_height (World_init 2 2 3 2 []) = 2"
  by (simp_all add: World_init_def)

lemma fresh_set:
  "grid_set (World_init 2 2 3 2 []) (0, 0, 2) (- 2)
     = Inr ((World_init 2 2 3 2 [])\<lparr>grid := (grid (World_init 2 2 3 2 []))((0, 0, 2) := - 2)\<rparr>)"
  "grid_set ((World_init 2 2 3 2 [])\<lparr>grid := (grid (World_init 2 2 3 2 []))((0, 0, 2) := - 2)\<rparr>)
       (0, 0, 2) (- 2)
     = Inr ((World_init 2 2 3 2 [])\<lparr>grid := (grid (World_init 2 2 3 2 []))((0, 0, 2) := - 2)\<rparr>)"
  by (simp_all add: World_init_def grid_set_def cell_def norm_index_def)

lemma agent_first:
  "Agent_init (World_init 2 2 3 2 []) 0 0
     = Inr (\<lparr>pos = (0, 0, 2), has_pellet = 0\<rparr>,
            (World_init 2 2 3 2 [])\<lparr>grid := (grid (World_init 2 2 3 2 []))((0, 0, 2) := - 2)\<rparr>)"
  by (simp add: Agent_init_def no_obj_fresh random_choice_def Let_def fresh_sel fresh_set)

lemma no_obj_second:
  "no_obj ((World_init 2 2 3 2 [])\<lparr>grid := (grid (World_init 2 2 3 2 []))((0, 0, 2) := - 2)\<rparr>)
     = [(0, 1), (1, 0), (1, 1)]"
  by (simp add: no_obj_def World_init_def init_objects_def in_shape_def upt_rec)

lemma agent_second:
  "Agent_init ((World_init 2 2 3 2 [])\<lparr>grid := (grid (World_init 2 2 3 2 []))((0, 0, 2) := - 2)\<rparr>) 0 1
     = Inr (\<lparr>pos = (0, 0, 2), has_pellet = 0\<rparr>,
            (World_init 2 2 3 2 [])\<lparr>grid := (grid (World_init 2 2 3 2 []))((0, 0, 2) := - 2)\<rparr>)"
  by (simp add: Agent_init_def no_obj_second random_choice_def Let_def fresh_sel fresh_set)

lemma count_after:
  "count_code ((World_init 2 2 3 2 [])\<lparr>grid := (grid (World_init 2 2 3 2 []))((0, 0, 2) := - 2)\<rparr>) (- 2) = 1"
  by (simp add: count_code_def voxels_def World_init_def init_objects_def in_shape_def upt_rec)

text \<open>
  Claim C1. The drivers create their agents one after the other with \<open>Agent(world)\<close>.
  In a world of shape \<open>(2, 2, 3)\<close> with soil height \<open>2\<close>, the first agent with the draws
  \<open>0\<close> and \<open>0\<close> stands at \<open>(0, 0, 2)\<close>. For the second agent the empty cells of the layer
  are \<open>(0, 1)\<close>, \<open>(1, 0)\<close>, \<open>(1, 1)\<close>, so that \<open>no_obj[0] = [0, 1, 1]\<close> and
  \<open>no_obj[1] = [1, 0, 1]\<close>: the draws \<open>0\<close> and \<open>1\<close> give \<open>x = 0\<close> and \<open>y = 0\<close>, the cell of
  the first agent. Both calls return, there are two agents, and one cell of the grid
  holds the agent code.
\<close>

theorem agents_share_cell:
  "\<exists>a1 w1 a2 w2.
      Agent_init (World_init 2 2 3 2 []) 0 0 = Inr (a1, w1)
    \<and> Agent_init w1 0 1 = Inr (a2, w2)
    \<and> pos a1 = (0, 0, 2) \<and> pos a2 = (0, 0, 2)
    \<and> count_code w2 (- 2) = 1"
  using agent_first agent_second count_after by simp

subsection \<open>Material codes\<close>

lemma is_code_simps: "is_code (- 2)" "is_code (- 1)" "is_code 0" "is_code 1" "is_code 2"
  by (simp_all add: is_code_def)

lemma init_objects_codes:
  "(\<And>c. is_code (g c)) \<Longrightarrow> is_code (init_objects shape objects g c)"
proof (induction objects arbitrary: g c)
  case Nil
  then show ?case by (simp add: init_objects_def)
next
  case (Cons ob obs)
  obtain s f where ob: "ob = (s, f)" by (cases ob)
  let ?g = "if s = shape then (\<lambda>c. if in_shape shape c \<and> f c = 1 then - 1 else g c) else g"
  have g: "is_code (?g c)" for c using Cons.prems [of c] by (simp add: is_code_simps)
  have "init_objects shape (ob # obs) g = init_objects shape obs ?g"
    by (simp add: init_objects_def ob)
  then show ?case using Cons.IH [of ?g c, OF g] by (simp add: is_code_simps)
qed

lemma World_init_codes: "valid_codes (World_init w l h sh objects)"
proof -
  have "is_code (init_objects (w, l, h) objects
          (\<lambda>(x, y, z). if in_shape (w, l, h) (x, y, z) \<and> z < sh then 1 else 0) c)" for c
    by (rule init_objects_codes) (simp add: is_code_simps split: prod.splits)
  then show ?thesis
    by (simp add: valid_codes_def World_init_def list_all_iff)
qed

lemma grid_set_codes:
  "valid_codes w \<Longrightarrow> is_code v \<Longrightarrow> grid_set w p v = Inr w' \<Longrightarrow> valid_codes w'"
  by (auto simp: grid_set_def valid_codes_def voxels_def list_all_iff split: option.splits)

text \<open>
  Every voxel of a new world holds one of the five material codes, and the creation
  of an agent and the methods \<open>place\<close>, \<open>move\<close>, \<open>pickup\<close> and \<open>drop\<close> of an agent keep it
  so: they write the codes \<open>-2\<close>, \<open>0\<close> and \<open>2\<close> only.
\<close>

theorem codes_preserved:
  "valid_codes (World_init wd l h sh objects)
   \<and> (valid_codes w \<longrightarrow>
        (Agent_init w r1 r2 = Inr (a1, w1) \<longrightarrow> valid_codes w1)
        \<and> (place a w = Inr w2 \<longrightarrow> valid_codes w2)
        \<and> (move a w q = Inr (a3, w3) \<longrightarrow> valid_codes w3)
        \<and> (pickup a w = Inr (a4, w4) \<longrightarrow> valid_codes w4)
        \<and> (drop' a w q = Inr (a5, w5) \<longrightarrow> valid_codes w5))"
proof (intro conjI impI)
  show "valid_codes (World_init wd l h sh objects)" by (rule World_init_codes)
next
  assume v: "valid_codes w"
  show "valid_codes w1" if "Agent_init w r1 r2 = Inr (a1, w1)"
    using that v
    by (auto simp: Agent_init_def Let_def is_code_simps split: if_splits sum.splits
             intro: grid_set_codes [where v = "- 2"])
  show "valid_codes w2" if "place a w = Inr w2"
    using that v by (auto simp: place_def is_code_simps intro: grid_set_codes [where v = "- 2"])
  show "valid_codes w3" if "move a w q = Inr (a3, w3)"
  proof -
    from that obtain u where 1: "grid_set w (pos a) 0 = Inr u" and 2: "grid_set u q (- 2) = Inr w3"
      by (auto simp: move_def place_def Let_def split: sum.splits)
    have "valid_codes u" using grid_set_codes [OF v _ 1] by (simp add: is_code_simps)
    then show ?thesis using grid_set_codes [OF _ _ 2] by (simp add: is_code_simps)
  qed
  show "valid_codes w4" if "pickup a w = Inr (a4, w4)"
  proof -
    obtain x y z where p: "pos a = (x, y, z)" by (cases "pos a")
    from that p obtain u u' where 1: "grid_set w (x, y, z - 1) 0 = Inr u"
      and 2: "grid_set u (x, y, z) 0 = Inr u'"
      and 3: "grid_set u' (x, y, z - 1) (- 2) = Inr w4"
      by (auto simp: pickup_def place_def Let_def split: sum.splits)
    have "valid_codes u" using grid_set_codes [OF v _ 1] by (simp add: is_code_simps)
    then have "valid_codes u'" using grid_set_codes [OF _ _ 2] by (simp add: is_code_simps)
    then show ?thesis using grid_set_codes [OF _ _ 3] by (simp add: is_code_simps)
  qed
  show "valid_codes w5" if "drop' a w q = Inr (a5, w5)"
  proof -
    from that obtain u where 1: "grid_set w (pos a) 2 = Inr u" and 2: "grid_set u q (- 2) = Inr w5"
      by (auto simp: drop'_def place_def Let_def split: sum.splits)
    have "valid_codes u" using grid_set_codes [OF v _ 1] by (simp add: is_code_simps)
    then show ?thesis using grid_set_codes [OF _ _ 2] by (simp add: is_code_simps)
  qed
qed

theorem codes_preserved_witness:
  "valid_codes (World_init 2 2 3 2 [])
   \<and> (\<exists>a1 w1 w2 a3 w3 a4 w4 a5 w5.
        Agent_init (World_init 2 2 3 2 []) 0 0 = Inr (a1, w1) \<and> valid_codes w1
        \<and> place \<lparr>pos = (0, 0, 2), has_pellet = 0\<rparr> (World_init 2 2 3 2 []) = Inr w2
        \<and> valid_codes w2
        \<and> move \<lparr>pos = (0, 0, 2), has_pellet = 0\<rparr> (World_init 2 2 3 2 []) (1, 0, 2) = Inr (a3, w3)
        \<and> valid_codes w3
        \<and> pickup \<lparr>pos = (0, 0, 2), has_pellet = 0\<rparr> (World_init 2 2 3 2 []) = Inr (a4, w4)
        \<and> valid_codes w4
        \<and> drop' \<lparr>pos = (0, 0, 2), has_pellet = 0\<rparr> (World_init 2 2 3 2 []) (1, 0, 2) = Inr (a5, w5)
        \<and> valid_codes w5)"
proof -
  let ?W = "World_init 2 2 3 2 []"
  let ?a = "\<lparr>pos = (0, 0, 2), has_pellet = 0\<rparr>"
  obtain a1 w1 where 1: "Agent_init ?W 0 0 = Inr (a1, w1)" using agent_first by simp
  obtain w2 where 2: "place ?a ?W = Inr w2" by (simp add: world_eval)
  obtain a3 w3 where 3: "move ?a ?W (1, 0, 2) = Inr (a3, w3)" by (simp add: world_eval)
  obtain a4 w4 where 4: "pickup ?a ?W = Inr (a4, w4)" by (simp add: world_eval)
  obtain a5 w5 where 5: "drop' ?a ?W (1, 0, 2) = Inr (a5, w5)" by (simp add: world_eval)
  note t = codes_preserved
    [where wd = 2 and l = 2 and h = 3 and sh = 2 and objects = "[]" and w = ?W
       and ?r1.0 = 0 and ?r2.0 = 0 and ?a1.0 = a1 and ?w1.0 = w1 and a = ?a and ?w2.0 = w2
       and q = "(1, 0, 2)" and ?a3.0 = a3 and ?w3.0 = w3 and ?a4.0 = a4 and ?w4.0 = w4
       and ?a5.0 = a5 and ?w5.0 = w5]
  have v: "valid_codes ?W" using t by simp
  show ?thesis using t v 1 2 3 4 5 by simp
qed

subsection \<open>The two local walks\<close>

lemma dist_bind_uniform_map:
  "dist_bind (dist_uniform (map g xs)) f = dist_bind (dist_uniform xs) (\<lambda>x. f (g x))"
  by (simp add: dist_bind_def dist_uniform_def comp_def)

lemma move_loop_stuck:
  "local_grid_data p w = Inr ld \<Longrightarrow> valid_moves ld = [] \<Longrightarrow>
     move_loop local_grid_data valid_moves w j p = dist_point (Inr p)"
  by (induction j) simp_all

lemma move_loop_new_stuck:
  "local_grid_data p w = Inr ld \<Longrightarrow> valid_moves ld = [] \<Longrightarrow>
     move_loop_new local_grid_data (random_move_direction valid_moves) w j p = dist_point (Inr p)"
  by (cases j) (simp_all add: random_move_direction_def dist_bind_def dist_point_def)

lemma move_loop_eq:
  "move_loop local_grid_data valid_moves w j p
     = move_loop_new local_grid_data (random_move_direction valid_moves) w j p"
proof (induction j arbitrary: p)
  case 0
  show ?case by simp
next
  case (Suc j)
  show ?case
  proof (cases "local_grid_data p w")
    case (Inl e)
    then show ?thesis by simp
  next
    case (Inr ld)
    show ?thesis
    proof (cases "valid_moves ld = []")
      case True
      show ?thesis
        using move_loop_stuck [of local_grid_data p w ld valid_moves "Suc j"]
          move_loop_new_stuck [of local_grid_data p w ld valid_moves "Suc j"] Inr True
        by simp
    next
      case False
      then show ?thesis
        using Inr Suc.IH
        by (simp add: random_move_direction_def dist_bind_uniform_map Let_def)
    qed
  qed
qed

text \<open>
  Claim C8. With \<open>random_move_direction\<close> uniform on the directions of the valid moves,
  \<open>move_algorithm\<close> and \<open>move_algorithm_new\<close> yield, for every start position, world and
  number of steps \<open>m\<close>, the same list of weighted outcomes (final position and world,
  or the raise), hence the same probability for every outcome. At a position
  without a valid move both loops end with that position, whatever number of
  iterations is left: the first by repeating an iteration that changes nothing, the
  second by leaving the loop.
\<close>

theorem local_walk_equivalence:
  "move_algorithm local_grid_data valid_moves p w m
     = move_algorithm_new local_grid_data (random_move_direction valid_moves) p w m
   \<and> mass (move_algorithm local_grid_data valid_moves p w m) out
       = mass (move_algorithm_new local_grid_data (random_move_direction valid_moves) p w m) out
   \<and> (local_grid_data p w0 = Inr ld \<and> valid_moves ld = [] \<longrightarrow>
        move_loop local_grid_data valid_moves w0 m p = dist_point (Inr p)
        \<and> move_loop_new local_grid_data (random_move_direction valid_moves) w0 m p
            = dist_point (Inr p))"
  using move_loop_stuck [of local_grid_data p w0 ld valid_moves m]
    move_loop_new_stuck [of local_grid_data p w0 ld valid_moves m]
  by (simp add: move_algorithm_def move_algorithm_new_def move_loop_eq split: sum.splits)

theorem local_walk_equivalence_witness:
  "move_algorithm (\<lambda>p w. Inr [0]) (\<lambda>ld. ([] :: (nat \<times> coord) list)) (0, 0, 2)
       (World_init 2 2 3 2 []) 3
     = move_algorithm_new (\<lambda>p w. Inr [0])
         (random_move_direction (\<lambda>ld. ([] :: (nat \<times> coord) list))) (0, 0, 2)
         (World_init 2 2 3 2 []) 3
   \<and> move_loop (\<lambda>p w. Inr [0]) (\<lambda>ld. ([] :: (nat \<times> coord) list)) (World_init 2 2 3 2 []) 3 (0, 0, 2)
     = dist_point (Inr (0, 0, 2))
   \<and> move_loop_new (\<lambda>p w. Inr [0]) (random_move_direction (\<lambda>ld. ([] :: (nat \<times> coord) list)))
        (World_init 2 2 3 2 []) 3 (0, 0, 2)
     = dist_point (Inr (0, 0, 2))"
  using local_walk_equivalence
    [where local_grid_data = "\<lambda>p w. Inr [0]"
       and valid_moves = "\<lambda>ld. ([] :: (nat \<times> coord) list)"
       and p = "(0, 0, 2)" and w = "World_init 2 2 3 2 []" and m = 3
       and out = "Inl IndexError" and ?w0.0 = "World_init 2 2 3 2 []" and ld = "[0]"]
  by simp

end
